theory Spec2Isabelle
  imports Main "HOL-Library.Word"
begin

section \<open>JavaScript values\<close>

text \<open>
  The values that travel through PMS.js: event data, raw events and the results of
  \<^verbatim>\<open>JSON.parse\<close>. A number is an integer from \<open>-2\<^sup>5\<^sup>3\<close> to \<open>2\<^sup>5\<^sup>3 - 1\<close>: a JavaScript
  number holds each of them exactly and prints it in plain decimal. An object is the
  list of its own properties, in the order in which the host enumerates them; a
  property read takes the first entry of a key. Its prototype is the built-in one, as
  for every object that \<^verbatim>\<open>JSON.parse\<close> or an object literal makes.
\<close>

datatype jsval =
    JUndefined
  | JNull
  | JBool bool
  | JNum "54 word"
  | JStr string
  | JArr "jsval list"
  | JObj "(string \<times> jsval) list"

text \<open>ToBoolean, as used by \<^verbatim>\<open>x || y\<close>, \<^verbatim>\<open>!x\<close> and \<^verbatim>\<open>if (x)\<close>.\<close>

fun truthy :: "jsval \<Rightarrow> bool" where
  "truthy JUndefined = False"
| "truthy JNull = False"
| "truthy (JBool b) = b"
| "truthy (JNum n) = (n \<noteq> 0)"
| "truthy (JStr s) = (s \<noteq> [])"
| "truthy (JArr xs) = True"
| "truthy (JObj kvs) = True"

text \<open>The \<^verbatim>\<open>typeof\<close> operator.\<close>

fun typeof :: "jsval \<Rightarrow> string" where
  "typeof JUndefined = ''undefined''"
| "typeof JNull = ''object''"
| "typeof (JBool b) = ''boolean''"
| "typeof (JNum n) = ''number''"
| "typeof (JStr s) = ''string''"
| "typeof (JArr xs) = ''object''"
| "typeof (JObj kvs) = ''object''"

text \<open>\<^verbatim>\<open>a || b\<close> on values.\<close>

definition js_or :: "jsval \<Rightarrow> jsval \<Rightarrow> jsval" where
  "js_or a b = (if truthy a then a else b)"

datatype error = TypeError string

text \<open>
  A property read \<^verbatim>\<open>v.name\<close>, for the names PMS.js reads from a parsed message
  (\<^verbatim>\<open>type\<close>, \<^verbatim>\<open>data\<close>, \<^verbatim>\<open>connectionID\<close>): none of them is a property of an array, a
  string, a number or a boolean, nor of the built-in prototype of objects, and reading
  any property of \<^verbatim>\<open>undefined\<close> or \<^verbatim>\<open>null\<close> throws a TypeError.
\<close>

definition own_prop :: "(string \<times> jsval) list \<Rightarrow> string \<Rightarrow> jsval" where
  "own_prop kvs name = (case map_of kvs name of None \<Rightarrow> JUndefined | Some v \<Rightarrow> v)"

fun get_prop :: "jsval \<Rightarrow> string \<Rightarrow> error + jsval" where
  "get_prop JUndefined name = Inl (TypeError ''cannot read property of undefined'')"
| "get_prop JNull name = Inl (TypeError ''cannot read property of null'')"
| "get_prop (JObj kvs) name = Inr (own_prop kvs name)"
| "get_prop v name = Inr JUndefined"

subsection \<open>Property keys\<close>

definition digit_char :: "nat \<Rightarrow> char" where
  "digit_char d = char_of (48 + d)"

function decimal :: "nat \<Rightarrow> string" where
  "decimal n = (if n < 10 then [digit_char n] else decimal (n div 10) @ [digit_char (n mod 10)])"
  by pat_completeness auto
termination
  by (relation "measure id") auto

declare decimal.simps [simp del]

definition int_to_string :: "int \<Rightarrow> string" where
  "int_to_string i = (if i < 0 then CHR ''-'' # decimal (nat (- i)) else decimal (nat i))"

fun join :: "string \<Rightarrow> string list \<Rightarrow> string" where
  "join sep [] = []"
| "join sep [x] = x"
| "join sep (x # y # ys) = x @ sep @ join sep (y # ys)"

text \<open>The strings of a list, or the first error in it.\<close>

fun all_strings :: "(error + string) list \<Rightarrow> error + string list" where
  "all_strings [] = Inr []"
| "all_strings (Inl ex # rs) = Inl ex"
| "all_strings (Inr s # rs) =
     (case all_strings rs of Inl ex \<Rightarrow> Inl ex | Inr ss \<Rightarrow> Inr (s # ss))"

text \<open>
  \<^verbatim>\<open>obj[v]\<close> converts \<^verbatim>\<open>v\<close> to a string first. An array is converted by \<^verbatim>\<open>join\<close>, which
  converts its elements in turn and takes null and undefined as the empty string. An
  object is converted by its \<^verbatim>\<open>toString\<close>: the inherited one gives \<^verbatim>\<open>[object Object]\<close>;
  an own property of that name is no function (no value here is), the inherited
  \<^verbatim>\<open>valueOf\<close> then returns the object itself, and the conversion throws a TypeError.
\<close>

fun to_string :: "jsval \<Rightarrow> error + string" where
  "to_string JUndefined = Inr ''undefined''"
| "to_string JNull = Inr ''null''"
| "to_string (JBool b) = Inr (if b then ''true'' else ''false'')"
| "to_string (JNum n) = Inr (int_to_string (sint n))"
| "to_string (JStr s) = Inr s"
| "to_string (JArr xs) =
     (case all_strings
             (map (\<lambda>x. if x = JUndefined \<or> x = JNull then Inr [] else to_string x) xs) of
        Inl ex \<Rightarrow> Inl ex
      | Inr ss \<Rightarrow> Inr (join '','' ss))"
| "to_string (JObj kvs) =
     (if map_of kvs ''toString'' = None then Inr ''[object Object]''
      else Inl (TypeError ''cannot convert object to primitive value''))"

section \<open>Event type lists\<close>

text \<open>
  \<^verbatim>\<open>PMS.prototype._splitRegExp = /[^,\s]+/g\<close>. A character of a \<open>string\<close> is one code
  unit below 256; of those, \<^verbatim>\<open>\s\<close> matches TAB, LF, VT, FF, CR, SPACE and NBSP.
\<close>

definition separator :: "char \<Rightarrow> bool" where
  "separator c \<longleftrightarrow>
     c = CHR '','' \<or> c = CHR 0x09 \<or> c = CHR 0x0A \<or> c = CHR 0x0B \<or> c = CHR 0x0C \<or>
     c = CHR 0x0D \<or> c = CHR 0x20 \<or> c = CHR 0xA0"

text \<open>
  One call of \<^verbatim>\<open>_splitRegExp.exec(s)\<close> with \<^verbatim>\<open>lastIndex = i\<close>: the result and the new
  \<^verbatim>\<open>lastIndex\<close>. The regexp has the flag \<^verbatim>\<open>g\<close>: the search starts at \<open>i\<close>; a match is
  the next maximal run of non-separators and leaves \<^verbatim>\<open>lastIndex\<close> at its end; with no
  match, or with \<open>i\<close> beyond the end of \<open>s\<close>, the result is null (\<open>None\<close>) and
  \<^verbatim>\<open>lastIndex\<close> becomes 0.
\<close>

definition splitRegExp_exec :: "string \<Rightarrow> nat \<Rightarrow> string option \<times> nat" where
  "splitRegExp_exec s i =
     (if length s < i then (None, 0)
      else
        (let s' = dropWhile separator (drop i s) in
         if s' = [] then (None, 0)
         else (Some (takeWhile (\<lambda>c. \<not> separator c) s'),
               length s - length (dropWhile (\<lambda>c. \<not> separator c) s'))))"

lemma splitRegExp_exec_advances:
  assumes "splitRegExp_exec s i = (Some tok, j)"
  shows "i < j \<and> j \<le> length s"
proof -
  define s' where "s' = dropWhile separator (drop i s)"
  from assms have i: "i \<le> length s" and ne: "s' \<noteq> []"
    and j: "j = length s - length (dropWhile (\<lambda>c. \<not> separator c) s')"
    by (auto simp: splitRegExp_exec_def s'_def Let_def split: if_splits)
  from ne have "\<not> separator (hd s')"
    unfolding s'_def by (metis hd_dropWhile)
  with ne have "length (dropWhile (\<lambda>c. \<not> separator c) s') < length s'"
    by (cases s') (auto simp: le_imp_less_Suc length_dropWhile_le)
  moreover have "length s' \<le> length s - i"
    unfolding s'_def using length_dropWhile_le [of separator "drop i s"] by simp
  ultimately show ?thesis using i j by auto
qed

section \<open>The service\<close>

text \<open>
  Functions, contexts and windows are objects compared by identity: each is a number.
  A subscription is the object literal that \<^verbatim>\<open>on\<close> pushes: it has the fields
  \<^verbatim>\<open>callback\<close>, \<^verbatim>\<open>context\<close> and \<^verbatim>\<open>once\<close>, and no other.
\<close>

type_synonym func = nat

record subscription =
  callback :: func
  ctx :: "nat option"
  once :: bool

record InternalEvent =
  type :: jsval
  data :: jsval
  rawEvent :: jsval

datatype winref = WUndefined | WNull | Window nat

text \<open>
  What an instance does to the outside, in order: the events \<^verbatim>\<open>trigger\<close> constructs,
  the callbacks \<^verbatim>\<open>_fire\<close> invokes (with the context and the event they get) and the
  strings handed to \<^verbatim>\<open>postMessage\<close> (with the window and the target origin).
\<close>

datatype action =
    NewEvent InternalEvent
  | Call func "nat option" InternalEvent
  | PostMessage nat string string

text \<open>
  The fields of an instance, the \<^verbatim>\<open>lastIndex\<close> of \<^verbatim>\<open>_splitRegExp\<close> (the one regexp of
  the prototype, which keeps it from call to call) and the trace of the actions so far.
  \<open>callbacks\<close> holds the arrays that \<^verbatim>\<open>on\<close> has stored in \<^verbatim>\<open>_callbacks\<close>. A callback is
  an observer: its invocation is recorded and it returns without calling back into the
  instance.
\<close>

record PMS =
  targetWindow :: winref
  targetOrigin :: string
  connectionID :: "string option"
  callbacks :: "string \<rightharpoonup> subscription list"
  lastIndex :: nat
  trace :: "action list"

text \<open>
  How a call ends: it returns, or it throws; either way it leaves the instance in a
  state.
\<close>

datatype result = Returns PMS | Throws error PMS

fun state_of :: "result \<Rightarrow> PMS" where
  "state_of (Returns st) = st"
| "state_of (Throws ex st) = st"

fun returned :: "result \<Rightarrow> bool" where
  "returned (Returns st) = True"
| "returned (Throws ex st) = False"

record settings =
  sets_targetWindow :: winref
  sets_connectionID :: "string option"
  sets_targetOrigin :: "string option"

text \<open>\<^verbatim>\<open>s || d\<close> for an optional string \<open>s\<close>: absent and empty are both falsy.\<close>

definition str_truthy :: "string option \<Rightarrow> bool" where
  "str_truthy s = (case s of None \<Rightarrow> False | Some x \<Rightarrow> x \<noteq> [])"

text \<open>\<^verbatim>\<open>PMS.prototype.set\<close>; \<open>None\<close> is a call without settings.\<close>

definition pms_set :: "settings option \<Rightarrow> PMS \<Rightarrow> PMS" where
  "pms_set sets st =
     (let sets = (case sets of
                    None \<Rightarrow> \<lparr>sets_targetWindow = WUndefined, sets_connectionID = None,
                             sets_targetOrigin = None\<rparr>
                  | Some s \<Rightarrow> s)
      in st\<lparr>targetWindow := sets_targetWindow sets,
            targetOrigin := (if str_truthy (sets_targetOrigin sets)
                             then the (sets_targetOrigin sets) else ''*''),
            connectionID := (if str_truthy (sets_connectionID sets)
                             then sets_connectionID sets else None)\<rparr>)"

subsection \<open>Reading \<^verbatim>\<open>_callbacks\<close>\<close>

text \<open>
  \<^verbatim>\<open>_callbacks\<close> is a plain object, \<^verbatim>\<open>{}\<close>: besides what \<^verbatim>\<open>on\<close> has stored, a read finds
  under these names what the built-in prototype of objects has there, a function (under
  \<^verbatim>\<open>__proto__\<close>, the prototype itself): a truthy value that is no array.
\<close>

definition inherited :: "string \<Rightarrow> bool" where
  "inherited key \<longleftrightarrow>
     key \<in> set [''constructor'', ''toString'', ''toLocaleString'', ''valueOf'',
                ''hasOwnProperty'', ''isPrototypeOf'', ''propertyIsEnumerable'',
                ''__proto__'', ''__defineGetter__'', ''__defineSetter__'',
                ''__lookupGetter__'', ''__lookupSetter__'']"

datatype entry = Undefined | NoArray | Array "subscription list"

text \<open>
  \<^verbatim>\<open>this._callbacks[key]\<close>. Under an inherited name no array is ever stored (see
  \<open>push_subscription\<close>), so a read there finds the value of the prototype.
\<close>

definition lookup :: "PMS \<Rightarrow> string \<Rightarrow> entry" where
  "lookup st key =
     (if inherited key then NoArray
      else case callbacks st key of None \<Rightarrow> Undefined | Some arr \<Rightarrow> Array arr)"

subsection \<open>Subscribing\<close>

text \<open>
  The body of the \<^verbatim>\<open>while\<close> loop of \<^verbatim>\<open>on\<close>, for one event name:
  \<^verbatim>\<open>this._callbacks[eName] = this._callbacks[eName] || []\<close> and then \<^verbatim>\<open>push\<close>. Under an
  inherited name the assignment stores the value of the prototype again (which changes
  no later read), that value has no \<^verbatim>\<open>push\<close>, and the call throws.
\<close>

definition push_subscription :: "string \<Rightarrow> subscription \<Rightarrow> PMS \<Rightarrow> result" where
  "push_subscription eName item st =
     (case lookup st eName of
        NoArray \<Rightarrow> Throws (TypeError ''push is not a function'') st
      | Undefined \<Rightarrow> Returns (st\<lparr>callbacks := (callbacks st)(eName \<mapsto> [item])\<rparr>)
      | Array arr \<Rightarrow> Returns (st\<lparr>callbacks := (callbacks st)(eName \<mapsto> arr @ [item])\<rparr>))"

text \<open>
  The \<^verbatim>\<open>while\<close> loop of \<^verbatim>\<open>on\<close>, with \<^verbatim>\<open>lastIndex = i\<close> before the next \<^verbatim>\<open>exec\<close>. The loop
  ends when \<^verbatim>\<open>exec\<close> returns null, with \<^verbatim>\<open>lastIndex\<close> 0, or when its body throws, with
  \<^verbatim>\<open>lastIndex\<close> behind the name that made it throw.
\<close>

function on_loop :: "string \<Rightarrow> nat \<Rightarrow> subscription \<Rightarrow> PMS \<Rightarrow> result" where
  "on_loop types i item st =
     (case splitRegExp_exec types i of
        (None, j) \<Rightarrow> Returns (st\<lparr>lastIndex := j\<rparr>)
      | (Some eName, j) \<Rightarrow>
          (case push_subscription eName item (st\<lparr>lastIndex := j\<rparr>) of
             Throws ex st' \<Rightarrow> Throws ex st'
           | Returns st' \<Rightarrow> on_loop types j item st'))"
  by pat_completeness auto
termination
  by (relation "measure (\<lambda>(types, i, item, st). length types - i)")
     (auto dest!: splitRegExp_exec_advances [OF sym])

declare on_loop.simps [simp del]

text \<open>
  \<^verbatim>\<open>PMS.prototype.on\<close>: \<^verbatim>\<open>context || null\<close> and \<^verbatim>\<open>_once || false\<close> are the identity on
  an optional context and a boolean. The first \<^verbatim>\<open>exec\<close> starts where \<^verbatim>\<open>lastIndex\<close> was
  left.
\<close>

definition on :: "string \<Rightarrow> func \<Rightarrow> nat option \<Rightarrow> bool \<Rightarrow> PMS \<Rightarrow> result" where
  "on types cb context once_flag st =
     on_loop types (lastIndex st) \<lparr>callback = cb, ctx = context, once = once_flag\<rparr> st"

text \<open>\<^verbatim>\<open>PMS.prototype.once\<close>.\<close>

definition pms_once :: "string \<Rightarrow> func \<Rightarrow> nat option \<Rightarrow> PMS \<Rightarrow> result" where
  "pms_once types cb context st = on types cb context True st"

subsection \<open>Unsubscribing one callback\<close>

text \<open>
  \<^verbatim>\<open>===\<close> on two objects is identity. In \<^verbatim>\<open>_offCallback\<close> the left operand is the
  function passed in and the right operand, \<^verbatim>\<open>clbk\<close>, is an element of the array: the
  subscription itself, not its \<^verbatim>\<open>callback\<close> field.
\<close>

datatype objref = Function func | Record subscription

text \<open>
  \<^verbatim>\<open>callbacks.some(function(clbk, i){ return !!(callback === clbk && callbacks.splice(i, 1)); })\<close>:
  the first element that compares equal is spliced out (\<^verbatim>\<open>splice\<close> returns an array,
  which is truthy) and \<^verbatim>\<open>some\<close> stops there.
\<close>

fun some_splice :: "func \<Rightarrow> subscription list \<Rightarrow> subscription list" where
  "some_splice cb [] = []"
| "some_splice cb (clbk # rest) =
     (if Function cb = Record clbk then rest else clbk # some_splice cb rest)"

text \<open>
  \<^verbatim>\<open>PMS.prototype._offCallback\<close>; the array is changed in place, under its key. What
  is found under an inherited name is truthy and has no \<^verbatim>\<open>some\<close>.
\<close>

definition offCallback :: "jsval \<Rightarrow> func \<Rightarrow> PMS \<Rightarrow> result" where
  "offCallback ty cb st =
     (case to_string ty of
        Inl ex \<Rightarrow> Throws ex st
      | Inr key \<Rightarrow>
          (case lookup st key of
             Undefined \<Rightarrow> Returns st
           | NoArray \<Rightarrow> Throws (TypeError ''callbacks.some is not a function'') st
           | Array arr \<Rightarrow>
               Returns (st\<lparr>callbacks := (callbacks st)(key \<mapsto> some_splice cb arr)\<rparr>)))"

subsection \<open>Dispatch\<close>

text \<open>\<^verbatim>\<open>item.type\<close> in \<^verbatim>\<open>_fire\<close>: a subscription has no such field.\<close>

definition item_type :: "subscription \<Rightarrow> jsval" where
  "item_type item = JUndefined"

text \<open>The call \<^verbatim>\<open>item.callback(e)\<close> or \<^verbatim>\<open>item.callback.call(context, e)\<close>.\<close>

definition invoke :: "InternalEvent \<Rightarrow> subscription \<Rightarrow> action" where
  "invoke e item = Call (callback item) (ctx item) e"

text \<open>
  \<^verbatim>\<open>callbacks.forEach(...)\<close> in \<^verbatim>\<open>_fire\<close>, from index \<open>k\<close>: \<^verbatim>\<open>forEach\<close> reads the length
  once, before the first call, and then visits the indices below it that the array
  still has when their turn comes. The array is the one stored under \<open>key\<close>, read
  anew at each index, since \<^verbatim>\<open>_offCallback\<close> may splice it meanwhile.
\<close>

function fire_from :: "InternalEvent \<Rightarrow> string \<Rightarrow> nat \<Rightarrow> nat \<Rightarrow> PMS \<Rightarrow> result" where
  "fire_from e key k len st =
     (if k < len then
        (case lookup st key of
           Array arr \<Rightarrow>
             if k < length arr then
               (let item = arr ! k;
                    st1 = st\<lparr>trace := trace st @ [invoke e item]\<rparr>
                in if once item then
                     (case offCallback (item_type item) (callback item) st1 of
                        Throws ex st2 \<Rightarrow> Throws ex st2
                      | Returns st2 \<Rightarrow> fire_from e key (Suc k) len st2)
                   else fire_from e key (Suc k) len st1)
             else fire_from e key (Suc k) len st
         | other \<Rightarrow> Returns st)
      else Returns st)"
  by pat_completeness auto
termination
  by (relation "measure (\<lambda>(e, key, k, len, st). len - k)") auto

declare fire_from.simps [simp del]

text \<open>
  \<^verbatim>\<open>PMS.prototype._fire\<close>, on what is found under \<open>key\<close>: only an array has a
  \<^verbatim>\<open>forEach\<close>.
\<close>

definition fire :: "InternalEvent \<Rightarrow> string \<Rightarrow> PMS \<Rightarrow> result" where
  "fire e key st =
     (case lookup st key of
        Undefined \<Rightarrow> Throws (TypeError ''cannot read property of undefined'') st
      | NoArray \<Rightarrow> Throws (TypeError ''callbacks.forEach is not a function'') st
      | Array arr \<Rightarrow> fire_from e key 0 (length arr) st)"

text \<open>
  \<^verbatim>\<open>PMS.prototype.trigger\<close>. The whole of \<^verbatim>\<open>type\<close> is one property key: the function
  does not use \<^verbatim>\<open>_splitRegExp\<close>. The key is made, and \<^verbatim>\<open>_callbacks\<close> read, before the
  event is constructed; \<^verbatim>\<open>if (callbacks)\<close> and \<^verbatim>\<open>if (all)\<close> let everything pass but
  undefined.
\<close>

definition trigger :: "jsval \<Rightarrow> jsval \<Rightarrow> jsval \<Rightarrow> PMS \<Rightarrow> result" where
  "trigger ty d raw st =
     (let d = js_or d JNull in
      case to_string ty of
        Inl ex \<Rightarrow> Throws ex st
      | Inr key \<Rightarrow>
          (let cbs = lookup st key;
               all = lookup st ''all'';
               e = \<lparr>type = ty, data = d, rawEvent = raw\<rparr>;
               st0 = st\<lparr>trace := trace st @ [NewEvent e]\<rparr>
           in case (if cbs \<noteq> Undefined then fire e key st0 else Returns st0) of
                Throws ex st1 \<Rightarrow> Throws ex st1
              | Returns st1 \<Rightarrow> if all \<noteq> Undefined then fire e ''all'' st1 else Returns st1))"

section \<open>The host's JSON object\<close>

text \<open>
  \<^verbatim>\<open>JSON.stringify\<close> and \<^verbatim>\<open>JSON.parse\<close> are built into the host. The functions of PMS.js
  that call them take them as parameters, and what is proved about receiving holds for
  every \<^verbatim>\<open>JSON.parse\<close>. This section models the two built-ins on the values of \<open>jsval\<close>,
  for the round trip of an envelope and for the examples.
\<close>

text \<open>The escapes of a string literal, as \<^verbatim>\<open>JSON.stringify\<close> writes them.\<close>

definition hex_digit :: "nat \<Rightarrow> char" where
  "hex_digit d = (if d < 10 then char_of (48 + d) else char_of (87 + d))"

definition quote_char :: "char \<Rightarrow> string" where
  "quote_char c =
     (if c = CHR 0x22 then [CHR 0x5C, CHR 0x22]
      else if c = CHR 0x5C then [CHR 0x5C, CHR 0x5C]
      else if c = CHR 0x08 then [CHR 0x5C, CHR ''b'']
      else if c = CHR 0x0C then [CHR 0x5C, CHR ''f'']
      else if c = CHR 0x0A then [CHR 0x5C, CHR ''n'']
      else if c = CHR 0x0D then [CHR 0x5C, CHR ''r'']
      else if c = CHR 0x09 then [CHR 0x5C, CHR ''t'']
      else if (of_char c :: nat) < 32 then
        [CHR 0x5C, CHR ''u'', CHR ''0'', CHR ''0'',
         hex_digit (of_char c div 16), hex_digit (of_char c mod 16)]
      else [c])"

definition quote :: "string \<Rightarrow> string" where
  "quote s = CHR 0x22 # concat (map quote_char s) @ [CHR 0x22]"

text \<open>
  An array element that is undefined prints as \<^verbatim>\<open>null\<close> and an object member that is
  undefined is left out. (For undefined itself the host returns undefined and no string;
  PMS.js never passes it.)
\<close>

fun JSON_stringify :: "jsval \<Rightarrow> string" where
  "JSON_stringify JUndefined = ''null''"
| "JSON_stringify JNull = ''null''"
| "JSON_stringify (JBool b) = (if b then ''true'' else ''false'')"
| "JSON_stringify (JNum n) = int_to_string (sint n)"
| "JSON_stringify (JStr s) = quote s"
| "JSON_stringify (JArr xs) = ''['' @ join '','' (map JSON_stringify xs) @ '']''"
| "JSON_stringify (JObj kvs) =
     ''{'' @ join '','' (map (\<lambda>(k, v). quote k @ '':'' @ JSON_stringify v)
                           (filter (\<lambda>(k, v). v \<noteq> JUndefined) kvs)) @ ''}''"

text \<open>
  The reader: JSON whitespace, the literals, integer literals, string literals with
  their escapes, arrays, objects (a repeated key keeps its first position and takes the
  last value). It rejects, besides the texts that are not JSON, a number with a fraction
  or an exponent or outside the numbers of \<open>jsval\<close>, and a \<^verbatim>\<open>\u\<close> escape above
  \<^verbatim>\<open>00ff\<close>: they have no value here.
\<close>

definition is_ws :: "char \<Rightarrow> bool" where
  "is_ws c \<longleftrightarrow> c = CHR 0x20 \<or> c = CHR 0x09 \<or> c = CHR 0x0A \<or> c = CHR 0x0D"

definition skip_ws :: "string \<Rightarrow> string" where
  "skip_ws s = dropWhile is_ws s"

definition is_digit :: "char \<Rightarrow> bool" where
  "is_digit c \<longleftrightarrow> (48::nat) \<le> of_char c \<and> (of_char c :: nat) \<le> 57"

definition hex_val :: "char \<Rightarrow> nat option" where
  "hex_val c =
     (let n = (of_char c :: nat) in
      if 48 \<le> n \<and> n \<le> 57 then Some (n - 48)
      else if 97 \<le> n \<and> n \<le> 102 then Some (n - 87)
      else if 65 \<le> n \<and> n \<le> 70 then Some (n - 55)
      else None)"

definition unescape :: "char \<Rightarrow> char option" where
  "unescape e =
     (if e = CHR 0x22 \<or> e = CHR 0x5C \<or> e = CHR ''/'' then Some e
      else if e = CHR ''b'' then Some (CHR 0x08)
      else if e = CHR ''f'' then Some (CHR 0x0C)
      else if e = CHR ''n'' then Some (CHR 0x0A)
      else if e = CHR ''r'' then Some (CHR 0x0D)
      else if e = CHR ''t'' then Some (CHR 0x09)
      else None)"

definition cons_char :: "char \<Rightarrow> (string \<times> string) option \<Rightarrow> (string \<times> string) option" where
  "cons_char c r = (case r of None \<Rightarrow> None | Some (s, rest) \<Rightarrow> Some (c # s, rest))"

fun parse_chars :: "string \<Rightarrow> (string \<times> string) option" where
  "parse_chars [] = None"
| "parse_chars (c # r) =
     (if c = CHR 0x22 then Some ([], r)
      else if c = CHR 0x5C then
        (case r of
           [] \<Rightarrow> None
         | e # r1 \<Rightarrow>
             if e = CHR ''u'' then
               (case r1 of
                  h1 # h2 # h3 # h4 # r2 \<Rightarrow>
                    (case (hex_val h1, hex_val h2, hex_val h3, hex_val h4) of
                       (Some a, Some b, Some c, Some d) \<Rightarrow>
                         if a = 0 \<and> b = 0 then cons_char (char_of (16 * c + d)) (parse_chars r2)
                         else None
                     | _ \<Rightarrow> None)
                | _ \<Rightarrow> None)
             else
               (case unescape e of
                  None \<Rightarrow> None
                | Some x \<Rightarrow> cons_char x (parse_chars r1)))
      else if (of_char c :: nat) < 32 then None
      else cons_char c (parse_chars r))"

definition parse_integer :: "string \<Rightarrow> (int \<times> string) option" where
  "parse_integer s =
     (let neg = (s \<noteq> [] \<and> hd s = CHR ''-'');
          s1 = (if neg then tl s else s);
          ds = takeWhile is_digit s1;
          rest = dropWhile is_digit s1;
          n = foldl (\<lambda>a c. 10 * a + (of_char c - 48)) (0::nat) ds
      in if ds = [] \<or> (hd ds = CHR ''0'' \<and> length ds > 1) then None
         else if rest \<noteq> [] \<and> (hd rest = CHR ''.'' \<or> hd rest = CHR ''e'' \<or> hd rest = CHR ''E'')
         then None
         else Some (if neg then - int n else int n, rest))"

definition parse_number :: "string \<Rightarrow> (jsval \<times> string) option" where
  "parse_number s =
     (case parse_integer s of
        None \<Rightarrow> None
      | Some (i, rest) \<Rightarrow>
          if i < - (2 ^ 53) \<or> 2 ^ 53 \<le> i then None
          else Some (JNum (word_of_int i), rest))"

fun set_member :: "string \<Rightarrow> jsval \<Rightarrow> (string \<times> jsval) list \<Rightarrow> (string \<times> jsval) list" where
  "set_member k v [] = [(k, v)]"
| "set_member k v ((k', v') # kvs) =
     (if k = k' then (k, v) # kvs else (k', v') # set_member k v kvs)"

definition literal :: "string \<Rightarrow> jsval \<Rightarrow> string \<Rightarrow> (jsval \<times> string) option" where
  "literal word v s = (if take (length word) s = word then Some (v, drop (length word) s) else None)"

text \<open>
  The first argument bounds the nesting depth plus the number of members read; the
  length of the text is enough, since each step consumes a character.
\<close>

fun parse_value :: "nat \<Rightarrow> string \<Rightarrow> (jsval \<times> string) option"
  and parse_elements :: "nat \<Rightarrow> jsval list \<Rightarrow> string \<Rightarrow> (jsval \<times> string) option"
  and parse_members :: "nat \<Rightarrow> (string \<times> jsval) list \<Rightarrow> string \<Rightarrow> (jsval \<times> string) option"
where
  "parse_value 0 s = None"
| "parse_value (Suc n) s =
     (case skip_ws s of
        [] \<Rightarrow> None
      | c # r \<Rightarrow>
          if c = CHR ''{'' then
            (if skip_ws r \<noteq> [] \<and> hd (skip_ws r) = CHR ''}'' then Some (JObj [], tl (skip_ws r))
             else parse_members n [] r)
          else if c = CHR ''['' then
            (if skip_ws r \<noteq> [] \<and> hd (skip_ws r) = CHR '']'' then Some (JArr [], tl (skip_ws r))
             else parse_elements n [] r)
          else if c = CHR 0x22 then
            (case parse_chars r of None \<Rightarrow> None | Some (str, rest) \<Rightarrow> Some (JStr str, rest))
          else if c = CHR ''n'' then literal ''null'' JNull (c # r)
          else if c = CHR ''t'' then literal ''true'' (JBool True) (c # r)
          else if c = CHR ''f'' then literal ''false'' (JBool False) (c # r)
          else parse_number (c # r))"
| "parse_elements 0 acc s = None"
| "parse_elements (Suc n) acc s =
     (case parse_value n s of
        None \<Rightarrow> None
      | Some (v, r) \<Rightarrow>
          (case skip_ws r of
             [] \<Rightarrow> None
           | c # r1 \<Rightarrow>
               if c = CHR '','' then parse_elements n (acc @ [v]) r1
               else if c = CHR '']'' then Some (JArr (acc @ [v]), r1)
               else None))"
| "parse_members 0 acc s = None"
| "parse_members (Suc n) acc s =
     (case skip_ws s of
        [] \<Rightarrow> None
      | q # r \<Rightarrow>
          if q \<noteq> CHR 0x22 then None
          else
            (case parse_chars r of
               None \<Rightarrow> None
             | Some (k, r1) \<Rightarrow>
                 (case skip_ws r1 of
                    [] \<Rightarrow> None
                  | c # r2 \<Rightarrow>
                      if c \<noteq> CHR '':'' then None
                      else
                        (case parse_value n r2 of
                           None \<Rightarrow> None
                         | Some (v, r3) \<Rightarrow>
                             (case skip_ws r3 of
                                [] \<Rightarrow> None
                              | c' # r4 \<Rightarrow>
                                  if c' = CHR '','' then parse_members n (set_member k v acc) r4
                                  else if c' = CHR ''}'' then Some (JObj (set_member k v acc), r4)
                                  else None)))))"

definition JSON_parse :: "string \<Rightarrow> jsval option" where
  "JSON_parse s =
     (case parse_value (Suc (length s)) s of
        None \<Rightarrow> None
      | Some (v, rest) \<Rightarrow> if skip_ws rest = [] then Some v else None)"

subsection \<open>What the reader gives back\<close>

text \<open>
  The values that JSON can carry: no undefined in them, and no key twice in an object.
\<close>

fun serializable :: "jsval \<Rightarrow> bool" where
  "serializable JUndefined = False"
| "serializable (JArr xs) = list_all serializable xs"
| "serializable (JObj kvs) =
     (distinct (map fst kvs) \<and> list_all (\<lambda>(k, v). serializable v) kvs)"
| "serializable v = True"

text \<open>
  A bound on the first argument that \<open>parse_value\<close> needs for the serialization of a
  value.
\<close>

fun weight :: "jsval \<Rightarrow> nat" where
  "weight (JArr xs) = Suc (sum_list (map (\<lambda>x. Suc (weight x)) xs))"
| "weight (JObj kvs) = Suc (sum_list (map (\<lambda>(k, v). Suc (weight v)) kvs))"
| "weight v = Suc 0"

text \<open>The number that a string of digits denotes.\<close>

definition digits_value :: "string \<Rightarrow> nat" where
  "digits_value ds = foldl (\<lambda>a c. 10 * a + (of_char c - 48)) 0 ds"

text \<open>
  What may follow a number in a serialization: nothing, or a character that is no digit
  and starts neither a fraction nor an exponent.
\<close>

definition ends_number :: "string \<Rightarrow> bool" where
  "ends_number rest \<longleftrightarrow>
     rest = [] \<or> (\<not> is_digit (hd rest) \<and> hd rest \<noteq> CHR ''.'' \<and> hd rest \<noteq> CHR ''e'' \<and> hd rest \<noteq> CHR ''E'')"

text \<open>The first character of a number.\<close>

definition number_start :: "char \<Rightarrow> bool" where
  "number_start c \<longleftrightarrow> c = CHR ''-'' \<or> is_digit c"

section \<open>Sending and receiving\<close>

text \<open>
  The parameter \<open>stringify\<close> stands for \<^verbatim>\<open>JSON.stringify\<close> and \<open>parse\<close> for
  \<^verbatim>\<open>JSON.parse\<close>, with \<open>parse s = None\<close> for a call that throws.
\<close>

text \<open>The object literal \<^verbatim>\<open>message\<close> of \<^verbatim>\<open>send\<close>; \<^verbatim>\<open>_connectionID\<close> is a string or null.\<close>

definition message :: "string option \<Rightarrow> jsval \<Rightarrow> jsval \<Rightarrow> jsval" where
  "message cid d ty =
     JObj [(''connectionID'', (case cid of None \<Rightarrow> JNull | Some c \<Rightarrow> JStr c)),
           (''data'', d),
           (''type'', ty)]"

text \<open>\<^verbatim>\<open>this._targetWindow.postMessage(text, origin)\<close>.\<close>

definition postMessage :: "winref \<Rightarrow> string \<Rightarrow> string \<Rightarrow> PMS \<Rightarrow> result" where
  "postMessage w text origin st =
     (case w of
        Window n \<Rightarrow> Returns (st\<lparr>trace := trace st @ [PostMessage n text origin]\<rparr>)
      | WUndefined \<Rightarrow> Throws (TypeError ''cannot read property of undefined'') st
      | WNull \<Rightarrow> Throws (TypeError ''cannot read property of null'') st)"

text \<open>\<^verbatim>\<open>PMS.prototype.send\<close>; an absent argument is \<open>JUndefined\<close>.\<close>

definition send :: "(jsval \<Rightarrow> string) \<Rightarrow> jsval \<Rightarrow> jsval \<Rightarrow> PMS \<Rightarrow> result" where
  "send stringify ty d st =
     (let d = js_or d JNull in
      if typeof d = ''object'' then
        postMessage (targetWindow st) (stringify (message (connectionID st) d ty))
          (targetOrigin st) st
      else Throws (TypeError ''incorrect data type. Should be an Object'') st)"

text \<open>
  The \<^verbatim>\<open>try\<close> statement of \<^verbatim>\<open>_processMessage\<close>: the values of \<^verbatim>\<open>parsed\<close>, \<^verbatim>\<open>rawEvent\<close>,
  \<^verbatim>\<open>type\<close> and \<^verbatim>\<open>data\<close> after it. The \<^verbatim>\<open>catch\<close> clause takes every exception of the
  block: the one \<^verbatim>\<open>JSON.parse\<close> throws, which leaves \<^verbatim>\<open>parsed\<close> undefined, and the one
  a property read of \<^verbatim>\<open>parsed\<close> throws, which comes after the assignment to \<^verbatim>\<open>parsed\<close>.
\<close>

definition decode ::
  "(string \<Rightarrow> jsval option) \<Rightarrow> string \<Rightarrow> jsval \<times> jsval \<times> jsval \<times> jsval" where
  "decode parse postJSON =
     (case parse postJSON of
        None \<Rightarrow> (JUndefined, JStr postJSON, JStr ''message'', JNull)
      | Some parsed \<Rightarrow>
          (case get_prop parsed ''type'' of
             Inl ex \<Rightarrow> (parsed, JStr postJSON, JStr ''message'', JNull)
           | Inr ty \<Rightarrow>
               (case get_prop parsed ''data'' of
                  Inl ex \<Rightarrow> (parsed, JStr postJSON, JStr ''message'', JNull)
                | Inr d \<Rightarrow> (parsed, parsed, ty, d))))"

text \<open>
  \<^verbatim>\<open>PMS.prototype._processMessage\<close>. \<^verbatim>\<open>||\<close> reads \<^verbatim>\<open>parsed.connectionID\<close> only when
  \<^verbatim>\<open>_connectionID\<close> is truthy; \<^verbatim>\<open>===\<close> then compares a non-empty string with a value.
\<close>

definition processMessage :: "(string \<Rightarrow> jsval option) \<Rightarrow> string \<Rightarrow> PMS \<Rightarrow> result" where
  "processMessage parse postJSON st =
     (case decode parse postJSON of
        (parsed, raw, ty, d) \<Rightarrow>
          if \<not> str_truthy (connectionID st) then trigger ty d raw st
          else
            (case get_prop parsed ''connectionID'' of
               Inl ex \<Rightarrow> Throws ex st
             | Inr remote \<Rightarrow>
                 if JStr (the (connectionID st)) = remote then trigger ty d raw st
                 else Returns st))"

text \<open>The \<^verbatim>\<open>message\<close> event of the window: \<^verbatim>\<open>e.source\<close> and \<^verbatim>\<open>e.data\<close>.\<close>

record MessageEvent =
  msg_source :: winref
  msg_data :: string

text \<open>\<^verbatim>\<open>PMS.prototype._receive\<close>.\<close>

definition receive :: "(string \<Rightarrow> jsval option) \<Rightarrow> MessageEvent \<Rightarrow> PMS \<Rightarrow> result" where
  "receive parse e st =
     (if msg_source e = targetWindow st then processMessage parse (msg_data e) st
      else Returns st)"

text \<open>
  The constructor: \<^verbatim>\<open>this.set(sets); this._callbacks = {}; this._listen();\<close>. The last
  statement makes the window call \<open>receive\<close> for every message it gets. The regexp is
  as the script made it, with \<^verbatim>\<open>lastIndex\<close> 0.
\<close>

definition new_PMS :: "settings option \<Rightarrow> PMS" where
  "new_PMS sets =
     (pms_set sets \<lparr>targetWindow = WUndefined, targetOrigin = [], connectionID = None,
                     callbacks = Map.empty, lastIndex = 0, trace = []\<rparr>)
       \<lparr>callbacks := Map.empty\<rparr>"

section \<open>Observations\<close>

text \<open>The subscriptions of one event name, in registration order.\<close>

definition subscribers :: "PMS \<Rightarrow> string \<Rightarrow> subscription list" where
  "subscribers st key = (case lookup st key of Array arr \<Rightarrow> arr | other \<Rightarrow> [])"

text \<open>The actions of a call that started in \<open>st\<close> and ended with \<open>r\<close>.\<close>

definition actions_of :: "PMS \<Rightarrow> result \<Rightarrow> action list" where
  "actions_of st r = drop (length (trace st)) (trace (state_of r))"

text \<open>
  What dispatching an event under a key looks like from outside: the event is
  constructed, then the subscribers of the key are called in registration order, then
  those of \<^verbatim>\<open>all\<close>.
\<close>

definition dispatch :: "InternalEvent \<Rightarrow> string \<Rightarrow> PMS \<Rightarrow> action list" where
  "dispatch ev key st =
     NewEvent ev # map (invoke ev) (subscribers st key) @ map (invoke ev) (subscribers st ''all'')"

text \<open>The JSON values that are neither an object nor undefined.\<close>

fun non_object :: "jsval \<Rightarrow> bool" where
  "non_object JNull = True"
| "non_object (JBool b) = True"
| "non_object (JNum n) = True"
| "non_object (JStr s) = True"
| "non_object (JArr xs) = True"
| "non_object v = False"

section \<open>Example instances\<close>

text \<open>
  \<^verbatim>\<open>new PMS({targetWindow: w1, connectionID: 'svc1'})\<close> and \<^verbatim>\<open>new PMS({targetWindow: w1})\<close>,
  for a window \<^verbatim>\<open>w1\<close>, and each of them after \<^verbatim>\<open>on('hi', f7)\<close> and \<^verbatim>\<open>on('all', f9)\<close>.
\<close>

definition svc1 :: PMS where
  "svc1 = new_PMS (Some \<lparr>sets_targetWindow = Window 1, sets_connectionID = Some ''svc1'',
                         sets_targetOrigin = None\<rparr>)"

definition unfiltered :: PMS where
  "unfiltered = new_PMS (Some \<lparr>sets_targetWindow = Window 1, sets_connectionID = None,
                               sets_targetOrigin = None\<rparr>)"

definition svc1_listening :: PMS where
  "svc1_listening =
     state_of (on ''all'' 9 None False (state_of (on ''hi'' 7 None False svc1)))"

definition unfiltered_listening :: PMS where
  "unfiltered_listening =
     state_of (on ''all'' 9 None False (state_of (on ''hi'' 7 None False unfiltered)))"

section \<open>Properties of the router\<close>

lemma not_inherited [simp]:
  "\<not> inherited ''all''" "\<not> inherited ''undefined''" "\<not> inherited ''message''"
  by (simp_all add: inherited_def)

lemma lookup_Array:
  "lookup st key = Array arr \<Longrightarrow> callbacks st key = Some arr \<and> \<not> inherited key"
  by (auto simp: lookup_def split: if_splits option.splits)

lemma lookup_trace [simp]: "lookup (st\<lparr>trace := t\<rparr>) key = lookup st key"
  by (simp add: lookup_def)

lemma lookup_inherited: "inherited key \<Longrightarrow> lookup st key = NoArray"
  by (simp add: lookup_def)

lemma lookup_ordinary:
  "\<not> inherited key \<Longrightarrow>
   lookup st key = (case callbacks st key of None \<Rightarrow> Undefined | Some arr \<Rightarrow> Array arr)"
  by (simp add: lookup_def)

text \<open>
  A function is never identical to a subscription, so \<^verbatim>\<open>_offCallback\<close> finds nothing
  to splice; called from \<^verbatim>\<open>_fire\<close>, with an undefined type, it returns and changes
  nothing.
\<close>

lemma some_splice_same: "some_splice cb arr = arr"
  by (induction arr) simp_all

lemma offCallback_same: "offCallback JUndefined cb st = Returns st"
  by (simp add: offCallback_def some_splice_same map_upd_triv lookup_def
      split: option.split)

lemma fire_from_trace:
  "lookup st key = Array arr \<Longrightarrow>
   fire_from e key k len st =
     Returns (st\<lparr>trace := trace st @ map (invoke e) (drop k (take len arr))\<rparr>)"
proof (induction e key k len st rule: fire_from.induct)
  case (1 e key k len st)
  show ?case
  proof (cases "k < len")
    case False
    then show ?thesis by (subst fire_from.simps) simp
  next
    case inrange: True
    show ?thesis
    proof (cases "k < length arr")
      case True
      let ?st1 = "st\<lparr>trace := trace st @ [invoke e (arr ! k)]\<rparr>"
      have l1: "lookup ?st1 key = Array arr"
        using "1.prems" by simp
      have step: "fire_from e key k len st = fire_from e key (Suc k) len ?st1"
        using inrange True "1.prems"
        by (subst fire_from.simps) (simp add: offCallback_same item_type_def Let_def)
      have ih: "fire_from e key (Suc k) len ?st1 =
                  Returns (?st1\<lparr>trace := trace ?st1
                             @ map (invoke e) (drop (Suc k) (take len arr))\<rparr>)"
      proof (cases "once (arr ! k)")
        case once: True
        have "offCallback (item_type (arr ! k)) (callback (arr ! k)) ?st1 = Returns ?st1"
          by (simp add: item_type_def offCallback_same)
        from "1.IH"(1) [OF inrange "1.prems" True refl refl once this l1]
        show ?thesis .
      next
        case False
        from "1.IH"(2) [OF inrange "1.prems" True refl refl False l1]
        show ?thesis .
      qed
      have "drop k (take len arr) = arr ! k # drop (Suc k) (take len arr)"
        using inrange True by (simp add: Cons_nth_drop_Suc [symmetric])
      then show ?thesis
        using step ih by simp
    next
      case False
      then have "drop k (take len arr) = []" and "drop (Suc k) (take len arr) = []"
        by simp_all
      moreover have "fire_from e key k len st = fire_from e key (Suc k) len st"
        using inrange False "1.prems" by (subst fire_from.simps) simp
      ultimately show ?thesis
        using "1.IH"(3) [OF inrange "1.prems" False "1.prems"] by simp
    qed
  qed
qed

lemma fire_trace:
  "lookup st key = Array arr \<Longrightarrow>
   fire e key st = Returns (st\<lparr>trace := trace st @ map (invoke e) arr\<rparr>)"
  by (simp add: fire_def fire_from_trace)

text \<open>
  What \<^verbatim>\<open>trigger\<close> does, case by case: a type that has no key throws before anything
  is done; a type whose key is an inherited name throws in the first \<^verbatim>\<open>_fire\<close>, after
  the event is constructed and before the subscribers of \<^verbatim>\<open>all\<close> are reached; every
  other type is dispatched.
\<close>

lemma trigger_no_key:
  "to_string ty = Inl ex \<Longrightarrow> trigger ty d raw st = Throws ex st"
  by (simp add: trigger_def)

lemma trigger_inherited:
  "to_string ty = Inr key \<Longrightarrow> inherited key \<Longrightarrow>
   trigger ty d raw st =
     Throws (TypeError ''callbacks.forEach is not a function'')
       (st\<lparr>trace := trace st @ [NewEvent \<lparr>type = ty, data = js_or d JNull, rawEvent = raw\<rparr>]\<rparr>)"
  by (simp add: trigger_def Let_def fire_def lookup_inherited)

lemma trigger_ordinary:
  assumes "to_string ty = Inr key" and "\<not> inherited key"
  shows "trigger ty d raw st =
     Returns (st\<lparr>trace := trace st
                @ dispatch \<lparr>type = ty, data = js_or d JNull, rawEvent = raw\<rparr> key st\<rparr>)"
proof -
  let ?e = "\<lparr>type = ty, data = js_or d JNull, rawEvent = raw\<rparr>"
  let ?st0 = "st\<lparr>trace := trace st @ [NewEvent ?e]\<rparr>"
  have first: "(if lookup st key \<noteq> Undefined then fire ?e key ?st0 else Returns ?st0) =
      Returns (?st0\<lparr>trace := trace ?st0 @ map (invoke ?e) (subscribers st key)\<rparr>)"
  proof (cases "lookup st key")
    case (Array arr)
    then show ?thesis by (simp add: fire_trace subscribers_def)
  next
    case NoArray
    with assms(2) show ?thesis by (simp add: lookup_def split: option.splits)
  qed (simp add: subscribers_def)
  let ?st1 = "?st0\<lparr>trace := trace ?st0 @ map (invoke ?e) (subscribers st key)\<rparr>"
  have second: "(if lookup st ''all'' \<noteq> Undefined then fire ?e ''all'' ?st1 else Returns ?st1) =
      Returns (?st1\<lparr>trace := trace ?st1 @ map (invoke ?e) (subscribers st ''all'')\<rparr>)"
  proof (cases "lookup st ''all''")
    case (Array arr)
    then show ?thesis by (simp add: fire_trace subscribers_def)
  next
    case NoArray
    then show ?thesis by (simp add: lookup_def split: option.splits)
  qed (simp add: subscribers_def)
  have "trigger ty d raw st =
      (case (if lookup st key \<noteq> Undefined then fire ?e key ?st0 else Returns ?st0) of
         Throws ex st1 \<Rightarrow> Throws ex st1
       | Returns st1 \<Rightarrow>
           if lookup st ''all'' \<noteq> Undefined then fire ?e ''all'' st1 else Returns st1)"
    unfolding trigger_def Let_def assms(1) by simp
  also have "\<dots> =
      (if lookup st ''all'' \<noteq> Undefined then fire ?e ''all'' ?st1 else Returns ?st1)"
    unfolding first by simp
  also have "\<dots> =
      Returns (?st1\<lparr>trace := trace ?st1 @ map (invoke ?e) (subscribers st ''all'')\<rparr>)"
    by (rule second)
  finally show ?thesis by (simp add: dispatch_def)
qed

text \<open>Whatever the type, a call of \<^verbatim>\<open>trigger\<close> shows: it throws or it leaves a longer trace.\<close>

lemma trigger_shows: "trigger ty d raw st \<noteq> Returns st"
proof (cases "to_string ty")
  case (Inl ex)
  then show ?thesis by (simp add: trigger_no_key)
next
  case (Inr key)
  show ?thesis
  proof (cases "inherited key")
    case True
    with Inr show ?thesis by (simp add: trigger_inherited)
  next
    case False
    have "st\<lparr>trace := trace st @ x # xs\<rparr> \<noteq> st" for x xs
    proof
      assume "st\<lparr>trace := trace st @ x # xs\<rparr> = st"
      then have "trace (st\<lparr>trace := trace st @ x # xs\<rparr>) = trace st" by simp
      then show False by simp
    qed
    with Inr False show ?thesis by (simp add: trigger_ordinary dispatch_def)
  qed
qed

lemma actions_of_Returns:
  "actions_of st (Returns (st\<lparr>trace := trace st @ as\<rparr>)) = as"
  by (simp add: actions_of_def)

lemma actions_of_Throws:
  "actions_of st (Throws ex (st\<lparr>trace := trace st @ as\<rparr>)) = as"
  by (simp add: actions_of_def)

lemma actions_of_same [simp]:
  "actions_of st (Returns st) = []" "actions_of st (Throws ex st) = []"
  by (simp_all add: actions_of_def)

section \<open>Properties of the receiving side\<close>

lemma decode_throws:
  "parse postJSON = None \<Longrightarrow>
   decode parse postJSON = (JUndefined, JStr postJSON, JStr ''message'', JNull)"
  by (simp add: decode_def)

lemma decode_null:
  "parse postJSON = Some JNull \<Longrightarrow>
   decode parse postJSON = (JNull, JStr postJSON, JStr ''message'', JNull)"
  by (simp add: decode_def)

lemma decode_object:
  "parse postJSON = Some (JObj kvs) \<Longrightarrow>
   decode parse postJSON = (JObj kvs, JObj kvs, own_prop kvs ''type'', own_prop kvs ''data'')"
  by (simp add: decode_def)

lemma decode_no_fields:
  "parse postJSON = Some v \<Longrightarrow> non_object v \<Longrightarrow> v \<noteq> JNull \<Longrightarrow>
   decode parse postJSON = (v, v, JUndefined, JUndefined)"
  by (cases v) (simp_all add: decode_def)

text \<open>After \<^verbatim>\<open>set\<close>, and so in every instance, \<^verbatim>\<open>_connectionID\<close> is null or a non-empty string.\<close>

lemma pms_set_connectionID: "connectionID (pms_set sets st) \<noteq> Some []"
  by (simp add: pms_set_def Let_def str_truthy_def split: option.split)

lemma new_PMS_connectionID: "connectionID (new_PMS sets) \<noteq> Some []"
  using pms_set_connectionID by (simp add: new_PMS_def)

text \<open>
  With a connection identifier set, a payload that \<^verbatim>\<open>JSON.parse\<close> rejects makes
  \<^verbatim>\<open>_processMessage\<close> read \<^verbatim>\<open>parsed.connectionID\<close> of an undefined \<^verbatim>\<open>parsed\<close>.
\<close>

lemma undecodable_with_connectionID:
  assumes "parse (msg_data e) = None"
    and "msg_source e = targetWindow st"
    and "str_truthy (connectionID st)"
  shows "receive parse e st = Throws (TypeError ''cannot read property of undefined'') st"
  using assms by (simp add: receive_def processMessage_def decode_throws)

lemma null_payload:
  assumes "parse (msg_data e) = Some JNull"
    and "msg_source e = targetWindow st"
    and "\<not> str_truthy (connectionID st)"
  shows "receive parse e st = trigger (JStr ''message'') JNull (JStr (msg_data e)) st"
  using assms by (simp add: receive_def processMessage_def decode_null)

text \<open>
  For any host: if \<^verbatim>\<open>JSON.parse\<close> gives back the envelope that \<^verbatim>\<open>JSON.stringify\<close> was
  given, the \<^verbatim>\<open>try\<close> block reads the type and the data that \<^verbatim>\<open>send\<close> put there.
\<close>

lemma decode_of_serialized:
  "parse (stringify (message cid d ty)) = Some (message cid d ty) \<Longrightarrow>
   decode parse (stringify (message cid d ty)) =
     (message cid d ty, message cid d ty, ty, d)"
  by (simp add: decode_def) (simp add: message_def own_prop_def)

lemma send_falsy:
  "\<not> truthy d \<Longrightarrow> targetWindow st = Window w \<Longrightarrow>
   send stringify ty d st =
     Returns (st\<lparr>trace := trace st @
            [PostMessage w (stringify (message (connectionID st) JNull ty))
               (targetOrigin st)]\<rparr>)"
  by (simp add: send_def js_or_def postMessage_def)

section \<open>The reader inverts the printer\<close>

text \<open>
  \<open>JSON_parse\<close> gives back every value that \<open>JSON_stringify\<close> was given, provided the
  value is one that JSON can carry: no undefined in it, and no key twice in an object.
\<close>

lemma unescape_simps [simp]:
  "unescape (CHR 0x22) = Some (CHR 0x22)"
  "unescape (CHR 0x5C) = Some (CHR 0x5C)"
  "unescape (CHR ''b'') = Some (CHR 0x08)"
  "unescape (CHR ''f'') = Some (CHR 0x0C)"
  "unescape (CHR ''n'') = Some (CHR 0x0A)"
  "unescape (CHR ''r'') = Some (CHR 0x0D)"
  "unescape (CHR ''t'') = Some (CHR 0x09)"
  by (simp_all add: unescape_def)

lemma hex_val_hex_digit: "d < 16 \<Longrightarrow> hex_val (hex_digit d) = Some d"
  by (auto simp: hex_val_def hex_digit_def Let_def)

lemma hex_val_zero [simp]: "hex_val (CHR ''0'') = Some 0"
  by (simp add: hex_val_def)

lemma parse_chars_quote_char:
  "parse_chars (quote_char c @ rest) = cons_char c (parse_chars rest)"
proof -
  consider "c = CHR 0x22" | "c = CHR 0x5C" | "c = CHR 0x08" | "c = CHR 0x0C" | "c = CHR 0x0A"
    | "c = CHR 0x0D" | "c = CHR 0x09"
    | "c \<notin> {CHR 0x22, CHR 0x5C, CHR 0x08, CHR 0x0C, CHR 0x0A, CHR 0x0D, CHR 0x09}" "(of_char c :: nat) < 32"
    | "c \<notin> {CHR 0x22, CHR 0x5C, CHR 0x08, CHR 0x0C, CHR 0x0A, CHR 0x0D, CHR 0x09}" "\<not> (of_char c :: nat) < 32"
    by blast
  then show ?thesis
  proof cases
    case 8
    let ?n = "of_char c :: nat"
    have d: "?n div 16 < 16" "?n mod 16 < 16" using 8 by simp_all
    have same: "char_of (16 * (?n div 16) + ?n mod 16) = c" by simp
    from 8 show ?thesis
      by (simp add: quote_char_def hex_val_hex_digit d same)
  qed (simp_all add: quote_char_def)
qed

lemma parse_chars_body:
  "parse_chars (concat (map quote_char s) @ CHR 0x22 # rest) = Some (s, rest)"
  by (induction s) (simp_all add: parse_chars_quote_char cons_char_def)

lemma parse_chars_quote:
  "quote s @ rest = CHR 0x22 # concat (map quote_char s) @ CHR 0x22 # rest"
  by (simp add: quote_def)


lemma is_digit_digit_char: "d < 10 \<Longrightarrow> is_digit (digit_char d)"
  by (simp add: is_digit_def digit_char_def)

lemma digit_char_value: "d < 10 \<Longrightarrow> (of_char (digit_char d) :: nat) - 48 = d"
  by (simp add: digit_char_def)

lemma char_of_48: "char_of (48::nat) = CHR ''0''"
  by code_simp

lemma digit_char_zero: "d < 10 \<Longrightarrow> digit_char d = CHR ''0'' \<longleftrightarrow> d = 0"
proof
  assume d: "d < 10" and "digit_char d = CHR ''0''"
  then have "(of_char (digit_char d) :: nat) = of_char (CHR ''0'')" by simp
  with d show "d = 0" by (simp add: digit_char_def)
qed (simp add: digit_char_def char_of_48)

lemma decimal_digits: "c \<in> set (decimal n) \<Longrightarrow> is_digit c"
proof (induction n arbitrary: c rule: decimal.induct)
  case (1 n)
  show ?case
  proof (cases "n < 10")
    case True
    with "1.prems" show ?thesis
      by (simp add: decimal.simps [of n] is_digit_digit_char)
  next
    case False
    with "1.prems" "1.IH" show ?thesis
      by (auto simp: decimal.simps [of n] is_digit_digit_char)
  qed
qed

lemma decimal_nonempty: "decimal n \<noteq> []"
  by (subst decimal.simps) simp

lemma decimal_hd: "hd (decimal n) = CHR ''0'' \<Longrightarrow> n = 0"
proof (induction n rule: decimal.induct)
  case (1 n)
  show ?case
  proof (cases "n < 10")
    case True
    with "1.prems" show ?thesis
      by (simp add: decimal.simps [of n] digit_char_zero)
  next
    case False
    with "1.prems" have "hd (decimal (n div 10)) = CHR ''0''"
      by (simp add: decimal.simps [of n] decimal_nonempty)
    with False "1.IH" have "n div 10 = 0" by simp
    with False show ?thesis by simp
  qed
qed

lemma decimal_zero: "decimal 0 = ''0''"
  by (simp add: decimal.simps [of 0] digit_char_def char_of_48)

lemma decimal_value: "digits_value (decimal n) = n"
proof (induction n rule: decimal.induct)
  case (1 n)
  show ?case
  proof (cases "n < 10")
    case True
    then show ?thesis
      by (simp add: decimal.simps [of n] digits_value_def digit_char_value)
  next
    case False
    with "1.IH" have "digits_value (decimal (n div 10)) = n div 10" by simp
    with False show ?thesis
      by (simp add: decimal.simps [of n] digits_value_def digit_char_value)
  qed
qed

lemma takeWhile_digits:
  "ends_number rest \<Longrightarrow> takeWhile is_digit (decimal n @ rest) = decimal n"
  by (cases rest) (auto simp: decimal_digits ends_number_def)

lemma dropWhile_digits:
  "ends_number rest \<Longrightarrow> dropWhile is_digit (decimal n @ rest) = rest"
  by (cases rest) (auto simp: decimal_digits ends_number_def)

lemma decimal_no_leading_zero: "\<not> (hd (decimal n) = CHR ''0'' \<and> length (decimal n) > 1)"
  using decimal_hd [of n] by (auto simp: decimal_zero)

lemma decimal_not_minus: "hd (decimal n @ rest) \<noteq> CHR ''-''"
proof -
  have "hd (decimal n) \<in> set (decimal n)" using decimal_nonempty by simp
  then have "is_digit (hd (decimal n))" by (rule decimal_digits)
  then have "hd (decimal n) \<noteq> CHR ''-''" by (auto simp: is_digit_def)
  then show ?thesis by (simp add: decimal_nonempty)
qed

lemma parse_integer_int_to_string:
  assumes "ends_number rest"
  shows "parse_integer (int_to_string i @ rest) = Some (i, rest)"
proof (cases "i < 0")
  case True
  have e: "\<not> (rest \<noteq> [] \<and> (hd rest = CHR ''.'' \<or> hd rest = CHR ''e'' \<or> hd rest = CHR ''E''))"
    using assms by (auto simp: ends_number_def)
  from True show ?thesis
    using decimal_no_leading_zero [of "nat (- i)"] e decimal_value [of "nat (- i)"]
    by (simp add: parse_integer_def int_to_string_def Let_def takeWhile_digits [OF assms]
        dropWhile_digits [OF assms] decimal_nonempty digits_value_def)
next
  case False
  have e: "\<not> (rest \<noteq> [] \<and> (hd rest = CHR ''.'' \<or> hd rest = CHR ''e'' \<or> hd rest = CHR ''E''))"
    using assms by (auto simp: ends_number_def)
  from False show ?thesis
    using decimal_no_leading_zero [of "nat i"] e decimal_value [of "nat i"]
      decimal_not_minus [of "nat i" rest]
    by (simp add: parse_integer_def int_to_string_def Let_def takeWhile_digits [OF assms]
        dropWhile_digits [OF assms] decimal_nonempty digits_value_def)
qed

lemma parse_number_int_to_string:
  assumes "ends_number rest"
  shows "parse_number (int_to_string (sint n) @ rest) = Some (JNum n, rest)"
proof -
  have "\<not> (sint n < - (2 ^ 53) \<or> 2 ^ 53 \<le> sint n)"
    using sint_ge [of n] sint_lt [of n] by simp
  then show ?thesis
    by (simp add: parse_number_def parse_integer_int_to_string [OF assms])
qed

lemma weight_pos: "0 < weight v"
  by (cases v) simp_all

lemma skip_ws_head: "\<not> is_ws c \<Longrightarrow> skip_ws (c # cs) = c # cs"
  by (simp add: skip_ws_def)

lemma ends_number_simps [simp]:
  "ends_number []" "ends_number (CHR '','' # r)" "ends_number (CHR '']'' # r)"
  "ends_number (CHR ''}'' # r)"
  by (simp_all add: ends_number_def is_digit_def)

lemma is_ws_simps [simp]:
  "\<not> is_ws (CHR '','')" "\<not> is_ws (CHR '']'')" "\<not> is_ws (CHR ''}'')" "\<not> is_ws (CHR '':'')"
  "\<not> is_ws (CHR 0x22)" "\<not> is_ws (CHR ''{'')" "\<not> is_ws (CHR ''['')"
  "\<not> is_ws (CHR ''n'')" "\<not> is_ws (CHR ''t'')" "\<not> is_ws (CHR ''f'')" "\<not> is_ws (CHR ''-'')"
  by (simp_all add: is_ws_def)

lemma is_digit_not_special:
  "is_digit c \<Longrightarrow> \<not> is_ws c \<and> c \<noteq> CHR ''{'' \<and> c \<noteq> CHR ''['' \<and> c \<noteq> CHR 0x22 \<and>
     c \<noteq> CHR ''n'' \<and> c \<noteq> CHR ''t'' \<and> c \<noteq> CHR ''f'' \<and> c \<noteq> CHR '']'' \<and> c \<noteq> CHR ''}''"
  by (auto simp: is_digit_def is_ws_def)

lemma number_start_not_special:
  "number_start c \<Longrightarrow> \<not> is_ws c \<and> c \<noteq> CHR ''{'' \<and> c \<noteq> CHR ''['' \<and> c \<noteq> CHR 0x22 \<and>
     c \<noteq> CHR ''n'' \<and> c \<noteq> CHR ''t'' \<and> c \<noteq> CHR ''f'' \<and> c \<noteq> CHR '']'' \<and> c \<noteq> CHR ''}''"
  using is_digit_not_special [of c] by (auto simp: number_start_def)

lemma int_to_string_start: "\<exists>c cs. int_to_string i = c # cs \<and> number_start c"
proof (cases "i < 0")
  case True
  then show ?thesis by (simp add: int_to_string_def number_start_def)
next
  case False
  obtain c cs where d: "decimal (nat i) = c # cs"
    using decimal_nonempty [of "nat i"] by (cases "decimal (nat i)") auto
  then have "c \<in> set (decimal (nat i))" by simp
  then have "is_digit c" by (rule decimal_digits)
  with d False show ?thesis by (simp add: int_to_string_def number_start_def)
qed

lemma stringify_start:
  "\<exists>c cs. JSON_stringify v = c # cs \<and> \<not> is_ws c \<and> c \<noteq> CHR '']'' \<and> c \<noteq> CHR ''}''"
proof (cases v)
  case (JNum n)
  with int_to_string_start [of "sint n"] number_start_not_special show ?thesis by auto
qed (auto simp: quote_def)

lemma skip_ws_stringify: "skip_ws (JSON_stringify v @ rest) = JSON_stringify v @ rest"
  using stringify_start [of v] by (auto simp: skip_ws_head)

lemma set_member_new: "k \<notin> fst ` set acc \<Longrightarrow> set_member k v acc = acc @ [(k, v)]"
  by (induction acc) auto

lemma parse_value_leaf:
  "parse_value (Suc n) (''null'' @ rest) = Some (JNull, rest)"
  "parse_value (Suc n) (''true'' @ rest) = Some (JBool True, rest)"
  "parse_value (Suc n) (''false'' @ rest) = Some (JBool False, rest)"
  by (simp_all add: skip_ws_head literal_def)

lemma parse_value_string:
  "parse_value (Suc n) (quote s @ rest) = Some (JStr s, rest)"
  by (simp add: parse_chars_quote skip_ws_head parse_chars_body)

lemma parse_value_number:
  assumes "ends_number rest"
  shows "parse_value (Suc n) (int_to_string (sint i) @ rest) = Some (JNum i, rest)"
proof -
  obtain c cs where s: "int_to_string (sint i) = c # cs" and n: "number_start c"
    using int_to_string_start [of "sint i"] by auto
  from n have *: "\<not> is_ws c" "c \<noteq> CHR ''{''" "c \<noteq> CHR ''[''" "c \<noteq> CHR 0x22"
    "c \<noteq> CHR ''n''" "c \<noteq> CHR ''t''" "c \<noteq> CHR ''f''"
    using number_start_not_special [of c] by simp_all
  have "parse_value (Suc n) (c # cs @ rest) = parse_number (c # cs @ rest)"
    using * by (simp add: skip_ws_head)
  with parse_number_int_to_string [OF assms, of i] s show ?thesis by simp
qed


lemma parse_elements_join:
  assumes "\<And>x n rest. x \<in> set xs \<Longrightarrow> weight x \<le> n \<Longrightarrow> ends_number rest \<Longrightarrow>
             parse_value n (JSON_stringify x @ rest) = Some (x, rest)"
    and "xs \<noteq> []"
    and "sum_list (map (\<lambda>x. Suc (weight x)) xs) \<le> n"
  shows "parse_elements n acc (join '','' (map JSON_stringify xs) @ CHR '']'' # rest) =
           Some (JArr (acc @ xs), rest)"
  using assms
proof (induction xs arbitrary: acc n)
  case Nil
  then show ?case by simp
next
  case (Cons x xs)
  from Cons.prems(3) obtain m where n: "n = Suc m" and wx: "weight x \<le> m"
    and rest_fuel: "sum_list (map (\<lambda>x. Suc (weight x)) xs) \<le> m"
    by (cases n) auto
  show ?case
  proof (cases xs)
    case Nil
    have "parse_value m (JSON_stringify x @ CHR '']'' # rest) = Some (x, CHR '']'' # rest)"
      using Cons.prems(1) [of x m "CHR '']'' # rest"] wx by simp
    with Nil n show ?thesis by (simp add: skip_ws_head)
  next
    case (Cons y ys)
    let ?tail = "join '','' (map JSON_stringify (y # ys)) @ CHR '']'' # rest"
    have "parse_value m (JSON_stringify x @ CHR '','' # ?tail) = Some (x, CHR '','' # ?tail)"
      using Cons.prems(1) [of x m "CHR '','' # ?tail"] wx by simp
    moreover have "parse_elements m (acc @ [x]) ?tail = Some (JArr ((acc @ [x]) @ xs), rest)"
      using Cons.IH [of m "acc @ [x]"] Cons.prems(1) rest_fuel Cons by simp
    ultimately show ?thesis
      using n Cons by (simp add: skip_ws_head)
  qed
qed

lemma parse_members_join:
  assumes "\<And>k v n rest. (k, v) \<in> set kvs \<Longrightarrow> weight v \<le> n \<Longrightarrow> ends_number rest \<Longrightarrow>
             parse_value n (JSON_stringify v @ rest) = Some (v, rest)"
    and "kvs \<noteq> []"
    and "sum_list (map (\<lambda>(k, v). Suc (weight v)) kvs) \<le> n"
    and "distinct (map fst (acc @ kvs))"
  shows "parse_members n acc
           (join '','' (map (\<lambda>(k, v). quote k @ '':'' @ JSON_stringify v) kvs) @ CHR ''}'' # rest) =
           Some (JObj (acc @ kvs), rest)"
  using assms
proof (induction kvs arbitrary: acc n)
  case Nil
  then show ?case by simp
next
  case outer: (Cons kv kvs)
  obtain k v where kv: "kv = (k, v)" by (cases kv)
  from outer.prems(3) kv obtain m where n: "n = Suc m" and wv: "weight v \<le> m"
    and rest_fuel: "sum_list (map (\<lambda>(k, v). Suc (weight v)) kvs) \<le> m"
    by (cases n) auto
  from outer.prems(4) kv have new: "k \<notin> fst ` set acc" by auto
  have key: "\<And>r. skip_ws ((quote k @ '':'' @ JSON_stringify v) @ r) =
                  CHR 0x22 # concat (map quote_char k) @ CHR 0x22 # CHR '':'' # JSON_stringify v @ r"
    by (simp add: quote_def skip_ws_head)
  show ?case
  proof (cases kvs)
    case Nil
    have "parse_value m (JSON_stringify v @ CHR ''}'' # rest) = Some (v, CHR ''}'' # rest)"
      using outer.prems(1) [of k v m "CHR ''}'' # rest"] wv kv by simp
    with Nil n kv new show ?thesis
      using key [of "CHR ''}'' # rest"]
      by (simp add: skip_ws_head parse_chars_body set_member_new)
  next
    case (Cons kv' kvs')
    let ?tail = "join '','' (map (\<lambda>(k, v). quote k @ '':'' @ JSON_stringify v) (kv' # kvs'))
                   @ CHR ''}'' # rest"
    have "parse_value m (JSON_stringify v @ CHR '','' # ?tail) = Some (v, CHR '','' # ?tail)"
      using outer.prems(1) [of k v m "CHR '','' # ?tail"] wv kv by simp
    moreover have "parse_members m (acc @ [(k, v)]) ?tail =
        Some (JObj ((acc @ [(k, v)]) @ kvs), rest)"
    proof -
      have vals: "\<And>k v n rest. (k, v) \<in> set kvs \<Longrightarrow> weight v \<le> n \<Longrightarrow> ends_number rest \<Longrightarrow>
          parse_value n (JSON_stringify v @ rest) = Some (v, rest)"
        using outer.prems(1) by (meson list.set_intros(2))
      have ne: "kvs \<noteq> []" using Cons by simp
      have dist: "distinct (map fst ((acc @ [(k, v)]) @ kvs))"
        using outer.prems(4) kv by simp
      from outer.IH [of m "acc @ [(k, v)]", OF vals ne rest_fuel dist] Cons
      show ?thesis by simp
    qed
    ultimately show ?thesis
      using n Cons kv new key [of "CHR '','' # ?tail"]
      by (simp add: skip_ws_head parse_chars_body set_member_new)
  qed
qed

lemma serializable_filter:
  "list_all (\<lambda>(k, v). serializable v) kvs \<Longrightarrow> filter (\<lambda>(k, v). v \<noteq> JUndefined) kvs = kvs"
  by (induction kvs) auto

lemma parse_value_stringify:
  "serializable v \<Longrightarrow> weight v \<le> n \<Longrightarrow> ends_number rest \<Longrightarrow>
   parse_value n (JSON_stringify v @ rest) = Some (v, rest)"
proof (induction v arbitrary: n rest)
  case JUndefined
  then show ?case by simp
next
  case JNull
  then obtain m where "n = Suc m" by (cases n) auto
  then show ?case using parse_value_leaf(1) [of m rest] by simp
next
  case (JBool b)
  then obtain m where "n = Suc m" by (cases n) auto
  then show ?case
    using parse_value_leaf(2) [of m rest] parse_value_leaf(3) [of m rest] by (cases b) simp_all
next
  case (JNum i)
  then obtain m where "n = Suc m" by (cases n) auto
  with JNum.prems(3) show ?case using parse_value_number [of rest m i] by simp
next
  case (JStr s)
  then obtain m where "n = Suc m" by (cases n) auto
  then show ?case using parse_value_string [of m s rest] by simp
next
  case (JArr xs)
  from JArr.prems(2) obtain m where n: "n = Suc m"
    and fuel: "sum_list (map (\<lambda>x. Suc (weight x)) xs) \<le> m"
    by (cases n) auto
  show ?case
  proof (cases "xs = []")
    case True
    with n show ?thesis by (simp add: skip_ws_head)
  next
    case False
    have elems: "\<And>x n rest. x \<in> set xs \<Longrightarrow> weight x \<le> n \<Longrightarrow> ends_number rest \<Longrightarrow>
        parse_value n (JSON_stringify x @ rest) = Some (x, rest)"
      using JArr.IH JArr.prems(1) by (simp add: list_all_iff)
    let ?body = "join '','' (map JSON_stringify xs) @ CHR '']'' # rest"
    obtain x ys where xs: "xs = x # ys" using False by (cases xs) auto
    obtain c cs where c: "JSON_stringify x = c # cs" "\<not> is_ws c" "c \<noteq> CHR '']''"
      using stringify_start [of x] by auto
    have "\<exists>r. ?body = c # r" using xs c by (cases ys) simp_all
    then obtain r where body: "?body = c # r" ..
    have sk: "skip_ws ?body = c # r" unfolding body using c(2) by (rule skip_ws_head)
    have "parse_value (Suc m) (CHR ''['' # ?body) = parse_elements m [] ?body"
      using sk c(3) by (simp add: skip_ws_head)
    also have "\<dots> = Some (JArr ([] @ xs), rest)"
      by (rule parse_elements_join [OF elems False fuel])
    finally show ?thesis using n by simp
  qed
next
  case (JObj kvs)
  from JObj.prems(2) obtain m where n: "n = Suc m"
    and fuel: "sum_list (map (\<lambda>(k, v). Suc (weight v)) kvs) \<le> m"
    by (cases n) auto
  from JObj.prems(1) have dist: "distinct (map fst kvs)"
    and all: "list_all (\<lambda>(k, v). serializable v) kvs" by simp_all
  note filt = serializable_filter [OF all]
  show ?case
  proof (cases "kvs = []")
    case True
    with n show ?thesis by (simp add: skip_ws_head)
  next
    case False
    have vals: "\<And>k v n rest. (k, v) \<in> set kvs \<Longrightarrow> weight v \<le> n \<Longrightarrow> ends_number rest \<Longrightarrow>
        parse_value n (JSON_stringify v @ rest) = Some (v, rest)"
    proof -
      fix k v n rest
      assume kv: "(k, v) \<in> set kvs" and w: "weight v \<le> n" and e: "ends_number rest"
      from all kv have "serializable v" by (auto simp: list_all_iff)
      moreover from kv have "v \<in> Basic_BNFs.snds (k, v)" by simp
      ultimately show "parse_value n (JSON_stringify v @ rest) = Some (v, rest)"
        using JObj.IH [OF kv] w e by simp
    qed
    let ?body = "join '','' (map (\<lambda>(k, v). quote k @ '':'' @ JSON_stringify v) kvs)
                   @ CHR ''}'' # rest"
    obtain k v rest' where kvs: "kvs = (k, v) # rest'" using False by (cases kvs) auto
    have "\<exists>r. ?body = CHR 0x22 # r" using kvs by (cases rest') (simp_all add: quote_def)
    then obtain r where body: "?body = CHR 0x22 # r" ..
    have sk: "skip_ws ?body = CHR 0x22 # r" unfolding body by (simp add: skip_ws_head)
    have "parse_value (Suc m) (CHR ''{'' # ?body) = parse_members m [] ?body"
      using sk by (simp add: skip_ws_head)
    also have "\<dots> = Some (JObj ([] @ kvs), rest)"
      using dist by (intro parse_members_join [OF vals False fuel]) simp_all
    finally show ?thesis using n filt by simp
  qed
qed


lemma length_join:
  "xs \<noteq> [] \<Longrightarrow> Suc (length (join '','' xs)) = sum_list (map (\<lambda>x. Suc (length x)) xs)"
  by (induction "'',''" xs rule: join.induct) simp_all

lemma stringify_nonempty: "JSON_stringify v \<noteq> []"
  using stringify_start [of v] by auto

lemma weight_le_length: "serializable v \<Longrightarrow> weight v \<le> length (JSON_stringify v)"
proof (induction v)
  case (JArr xs)
  show ?case
  proof (cases "xs = []")
    case True
    then show ?thesis by simp
  next
    case False
    have "sum_list (map (\<lambda>x. Suc (weight x)) xs) \<le>
          sum_list (map (\<lambda>x. Suc (length (JSON_stringify x))) xs)"
      using JArr by (intro sum_list_mono) (simp add: list_all_iff)
    also have "\<dots> = sum_list (map (\<lambda>s. Suc (length s)) (map JSON_stringify xs))"
      by (simp add: comp_def)
    also have "\<dots> = Suc (length (join '','' (map JSON_stringify xs)))"
      using False by (simp add: length_join)
    finally show ?thesis by simp
  qed
next
  case (JObj kvs)
  from JObj.prems have all: "list_all (\<lambda>(k, v). serializable v) kvs" by simp
  note filt = serializable_filter [OF all]
  let ?member = "\<lambda>(k, v). quote k @ '':'' @ JSON_stringify v"
  show ?case
  proof (cases "kvs = []")
    case True
    then show ?thesis by simp
  next
    case False
    have "sum_list (map (\<lambda>(k, v). Suc (weight v)) kvs) \<le>
          sum_list (map (\<lambda>kv. Suc (length (?member kv))) kvs)"
    proof (rule sum_list_mono)
      fix kv assume kv: "kv \<in> set kvs"
      obtain k v where eq: "kv = (k, v)" by (cases kv)
      with kv all have "serializable v" by (auto simp: list_all_iff)
      moreover from eq have "v \<in> Basic_BNFs.snds kv" by simp
      ultimately have "weight v \<le> length (JSON_stringify v)"
        using JObj.IH [OF kv] by simp
      with eq show "(case kv of (k, v) \<Rightarrow> Suc (weight v)) \<le> Suc (length (?member kv))"
        by simp
    qed
    also have "\<dots> = sum_list (map (\<lambda>s. Suc (length s)) (map ?member kvs))"
      by (simp add: comp_def)
    also have "\<dots> = Suc (length (join '','' (map ?member kvs)))"
      using False by (simp add: length_join)
    finally show ?thesis using filt by simp
  qed
next
  case (JNum i)
  show ?case using stringify_nonempty [of "JNum i"] by (simp add: Suc_le_eq)
qed (simp_all add: quote_def)

lemma JSON_round_trip:
  assumes "serializable v"
  shows "JSON_parse (JSON_stringify v) = Some v"
proof -
  have "weight v \<le> Suc (length (JSON_stringify v))"
    using weight_le_length [OF assms] by simp
  then have "parse_value (Suc (length (JSON_stringify v))) (JSON_stringify v @ []) = Some (v, [])"
    using assms by (intro parse_value_stringify) simp_all
  then show ?thesis by (simp add: JSON_parse_def skip_ws_def)
qed

text \<open>An envelope with a type string can be carried if its data can.\<close>

lemma serializable_message:
  "serializable d \<Longrightarrow> serializable (message cid d (JStr ty))"
  by (cases cid) (simp_all add: message_def)

subsection \<open>The example instances\<close>

lemma svc1_fields:
  "targetWindow svc1 = Window 1" "targetOrigin svc1 = ''*''"
  "connectionID svc1 = Some ''svc1''" "trace svc1 = []"
  by (simp_all add: svc1_def new_PMS_def pms_set_def str_truthy_def)

lemma unfiltered_fields:
  "targetWindow unfiltered = Window 1" "targetOrigin unfiltered = ''*''"
  "connectionID unfiltered = None" "trace unfiltered = []"
  by (simp_all add: unfiltered_def new_PMS_def pms_set_def str_truthy_def)

lemma listening_fields:
  "targetWindow svc1_listening = Window 1" "connectionID svc1_listening = Some ''svc1''"
  "targetWindow unfiltered_listening = Window 1" "connectionID unfiltered_listening = None"
  "subscribers svc1_listening ''hi'' = [\<lparr>callback = 7, ctx = None, once = False\<rparr>]"
  "subscribers svc1_listening ''all'' = [\<lparr>callback = 9, ctx = None, once = False\<rparr>]"
  "subscribers unfiltered_listening ''hi'' = [\<lparr>callback = 7, ctx = None, once = False\<rparr>]"
  "subscribers unfiltered_listening ''all'' = [\<lparr>callback = 9, ctx = None, once = False\<rparr>]"
  "subscribers unfiltered_listening ''message'' = []"
  "subscribers unfiltered_listening ''undefined'' = []"
  by code_simp+

section \<open>Claims\<close>

text \<open>
  C1. The claim: a callback registered with \<^verbatim>\<open>once\<close> under a type is invoked once in
  total when the type is triggered twice, its subscription being removed after the
  first firing. The code does not do it: \<^verbatim>\<open>_fire\<close> calls
  \<^verbatim>\<open>_offCallback(item.type, item.callback)\<close>, where \<^verbatim>\<open>item.type\<close> is undefined, and
  \<^verbatim>\<open>_offCallback\<close> compares the function with the subscriptions themselves. After
  \<^verbatim>\<open>once('hello', f)\<close>, two calls of \<^verbatim>\<open>trigger('hello')\<close> call \<^verbatim>\<open>f\<close> twice, and the
  subscription is still registered.
\<close>

theorem once_fires_at_every_trigger:
  "returned (pms_once ''hello'' 7 None unfiltered) \<and>
   returned (trigger (JStr ''hello'') JUndefined JUndefined
               (state_of (pms_once ''hello'' 7 None unfiltered))) \<and>
   returned (trigger (JStr ''hello'') JUndefined JUndefined
               (state_of (trigger (JStr ''hello'') JUndefined JUndefined
                  (state_of (pms_once ''hello'' 7 None unfiltered))))) \<and>
   trace (state_of (trigger (JStr ''hello'') JUndefined JUndefined
            (state_of (trigger (JStr ''hello'') JUndefined JUndefined
               (state_of (pms_once ''hello'' 7 None unfiltered)))))) =
     [NewEvent \<lparr>type = JStr ''hello'', data = JNull, rawEvent = JUndefined\<rparr>,
      Call 7 None \<lparr>type = JStr ''hello'', data = JNull, rawEvent = JUndefined\<rparr>,
      NewEvent \<lparr>type = JStr ''hello'', data = JNull, rawEvent = JUndefined\<rparr>,
      Call 7 None \<lparr>type = JStr ''hello'', data = JNull, rawEvent = JUndefined\<rparr>] \<and>
   subscribers (state_of (trigger (JStr ''hello'') JUndefined JUndefined
                  (state_of (trigger (JStr ''hello'') JUndefined JUndefined
                     (state_of (pms_once ''hello'' 7 None unfiltered)))))) ''hello'' =
     [\<lparr>callback = 7, ctx = None, once = True\<rparr>]"
  by code_simp

text \<open>
  C2. The claim: \<^verbatim>\<open>trigger\<close> splits a list of types at whitespace and commas and fires
  the subscribers of each token, so that a subscriber of \<^verbatim>\<open>hello\<close> is invoked by
  \<^verbatim>\<open>trigger('hello, hi')\<close>. The code does not do it: \<^verbatim>\<open>trigger\<close> looks the whole string up
  as one key. After \<^verbatim>\<open>on('hello', f)\<close>, \<^verbatim>\<open>trigger('hello, hi')\<close> constructs one event of
  type \<^verbatim>\<open>'hello, hi'\<close> and calls nothing, while \<^verbatim>\<open>trigger('hello')\<close> calls \<^verbatim>\<open>f\<close>; and
  \<^verbatim>\<open>on('hello, hi', f)\<close> registers \<^verbatim>\<open>f\<close> under both names.
\<close>

theorem trigger_takes_list_as_one_type:
  "returned (on ''hello'' 7 None False unfiltered) \<and>
   returned (trigger (JStr ''hello, hi'') JUndefined JUndefined
               (state_of (on ''hello'' 7 None False unfiltered))) \<and>
   actions_of (state_of (on ''hello'' 7 None False unfiltered))
     (trigger (JStr ''hello, hi'') JUndefined JUndefined
        (state_of (on ''hello'' 7 None False unfiltered))) =
     [NewEvent \<lparr>type = JStr ''hello, hi'', data = JNull, rawEvent = JUndefined\<rparr>] \<and>
   actions_of (state_of (on ''hello'' 7 None False unfiltered))
     (trigger (JStr ''hello'') JUndefined JUndefined
        (state_of (on ''hello'' 7 None False unfiltered))) =
     [NewEvent \<lparr>type = JStr ''hello'', data = JNull, rawEvent = JUndefined\<rparr>,
      Call 7 None \<lparr>type = JStr ''hello'', data = JNull, rawEvent = JUndefined\<rparr>] \<and>
   returned (on ''hello, hi'' 7 None False unfiltered) \<and>
   subscribers (state_of (on ''hello, hi'' 7 None False unfiltered)) ''hello'' =
     [\<lparr>callback = 7, ctx = None, once = False\<rparr>] \<and>
   subscribers (state_of (on ''hello, hi'' 7 None False unfiltered)) ''hi'' =
     [\<lparr>callback = 7, ctx = None, once = False\<rparr>]"
  by code_simp

text \<open>
  C3, as stated: for every payload that \<^verbatim>\<open>JSON.parse\<close> rejects and every setting of the
  local connection identifier, \<^verbatim>\<open>receive\<close> dispatches under \<^verbatim>\<open>message\<close> and no error
  escapes. It fails with an identifier set: for the instance \<open>svc1\<close> and the payload
  \<^verbatim>\<open>Hi Jack\<close>, \<^verbatim>\<open>receive\<close> throws a TypeError and dispatches nothing.
\<close>

theorem undecodable_with_id_counterexample:
  "JSON_parse ''Hi Jack'' = None \<and>
   receive JSON_parse \<lparr>msg_source = Window 1, msg_data = ''Hi Jack''\<rparr> svc1 =
     Throws (TypeError ''cannot read property of undefined'') svc1 \<and>
   actions_of svc1 (receive JSON_parse \<lparr>msg_source = Window 1, msg_data = ''Hi Jack''\<rparr> svc1) = []"
proof -
  let ?e = "\<lparr>msg_source = Window 1, msg_data = ''Hi Jack''\<rparr>"
  have p: "JSON_parse (msg_data ?e) = None" by code_simp
  have s: "msg_source ?e = targetWindow svc1" by (simp add: svc1_fields)
  have c: "str_truthy (connectionID svc1)" by (simp add: svc1_fields str_truthy_def)
  have r: "receive JSON_parse ?e svc1 =
             Throws (TypeError ''cannot read property of undefined'') svc1"
    by (rule undecodable_with_connectionID [of JSON_parse ?e svc1, OF p s c])
  from p r show ?thesis by simp
qed

text \<open>
  C3, amended. For every payload that \<^verbatim>\<open>JSON.parse\<close> rejects, coming from the target
  window, when the local connection identifier is unset, \<^verbatim>\<open>receive\<close> throws nothing and
  dispatches one event of type \<^verbatim>\<open>message\<close> with null data and the payload itself as
  raw event, without reading a connection identifier from the message.
\<close>

theorem undecodable_goes_to_message:
  assumes "parse (msg_data e) = None"
    and "msg_source e = targetWindow st"
    and "\<not> str_truthy (connectionID st)"
  shows "receive parse e st = trigger (JStr ''message'') JNull (JStr (msg_data e)) st \<and>
         receive parse e st =
           Returns (st\<lparr>trace := trace st @
              dispatch \<lparr>type = JStr ''message'', data = JNull, rawEvent = JStr (msg_data e)\<rparr>
                ''message'' st\<rparr>) \<and>
         actions_of st (receive parse e st) =
           dispatch \<lparr>type = JStr ''message'', data = JNull, rawEvent = JStr (msg_data e)\<rparr>
             ''message'' st"
proof -
  from assms have r: "receive parse e st =
      trigger (JStr ''message'') JNull (JStr (msg_data e)) st"
    by (simp add: receive_def processMessage_def decode_throws)
  have t: "trigger (JStr ''message'') JNull (JStr (msg_data e)) st =
      Returns (st\<lparr>trace := trace st @
         dispatch \<lparr>type = JStr ''message'', data = JNull, rawEvent = JStr (msg_data e)\<rparr>
           ''message'' st\<rparr>)"
    using trigger_ordinary [of "JStr ''message''" "''message''" JNull "JStr (msg_data e)" st]
    by (simp add: js_or_def)
  show ?thesis unfolding r t by (simp add: actions_of_Returns)
qed

theorem undecodable_goes_to_message_witness:
  "JSON_parse ''Hi Jack'' = None \<and>
   returned (on ''message'' 7 None False unfiltered_listening) \<and>
   returned (receive JSON_parse \<lparr>msg_source = Window 1, msg_data = ''Hi Jack''\<rparr>
               (state_of (on ''message'' 7 None False unfiltered_listening))) \<and>
   actions_of (state_of (on ''message'' 7 None False unfiltered_listening))
     (receive JSON_parse \<lparr>msg_source = Window 1, msg_data = ''Hi Jack''\<rparr>
        (state_of (on ''message'' 7 None False unfiltered_listening))) =
     [NewEvent \<lparr>type = JStr ''message'', data = JNull, rawEvent = JStr ''Hi Jack''\<rparr>,
      Call 7 None \<lparr>type = JStr ''message'', data = JNull, rawEvent = JStr ''Hi Jack''\<rparr>,
      Call 9 None \<lparr>type = JStr ''message'', data = JNull, rawEvent = JStr ''Hi Jack''\<rparr>]"
proof -
  let ?st = "state_of (on ''message'' 7 None False unfiltered_listening)"
  let ?e = "\<lparr>msg_source = Window 1, msg_data = ''Hi Jack''\<rparr>"
  let ?ev = "\<lparr>type = JStr ''message'', data = JNull, rawEvent = JStr ''Hi Jack''\<rparr>"
  have o: "returned (on ''message'' 7 None False unfiltered_listening)" by code_simp
  have p: "JSON_parse (msg_data ?e) = None" by code_simp
  have s: "msg_source ?e = targetWindow ?st" by code_simp
  have c: "\<not> str_truthy (connectionID ?st)" by code_simp
  have d: "dispatch ?ev ''message'' ?st = [NewEvent ?ev, Call 7 None ?ev, Call 9 None ?ev]"
    by code_simp
  note inst = undecodable_goes_to_message [of JSON_parse ?e ?st, OF p s c]
  have "returned (receive JSON_parse ?e ?st)"
    using inst [THEN conjunct2, THEN conjunct1] by simp
  with inst [THEN conjunct2, THEN conjunct2] o p d show ?thesis by simp
qed

text \<open>
  C4, as stated: \<^verbatim>\<open>send(type, data)\<close> throws the TypeError if and only if \<^verbatim>\<open>data\<close> is
  supplied and is not a keyed structure. It fails for a falsy scalar: \<^verbatim>\<open>send('count', 0)\<close>
  throws nothing and posts an envelope whose data is null.
\<close>

theorem send_zero_counterexample:
  \<open>typeof (JNum 0) = ''number'' \<and>
   send JSON_stringify (JStr ''count'') (JNum 0) unfiltered =
     Returns (unfiltered
        \<lparr>trace := [PostMessage 1 ''{"connectionID":null,"data":null,"type":"count"}'' ''*'']\<rparr>)\<close>
proof -
  have f: "\<not> truthy (JNum 0)" by simp
  have str: \<open>JSON_stringify (message None JNull (JStr ''count'')) =
             ''{"connectionID":null,"data":null,"type":"count"}''\<close> by code_simp
  from send_falsy [of "JNum 0" unfiltered 1 JSON_stringify "JStr ''count''",
      OF f unfiltered_fields(1)]
  show ?thesis unfolding unfiltered_fields str by simp
qed

text \<open>
  C4, amended. With a target window set, \<^verbatim>\<open>send(type, data)\<close> throws the TypeError
  \<^verbatim>\<open>incorrect data type\<close> if and only if \<^verbatim>\<open>data\<close> is truthy and its \<^verbatim>\<open>typeof\<close> is not
  \<^verbatim>\<open>object\<close> (a non-empty string, a non-zero number, \<^verbatim>\<open>true\<close>); nothing is posted then.
  Otherwise it posts one string, the serialization of the envelope of the local
  connection identifier, the data and the type, to the target window with the target
  origin; the data of the envelope is null when \<^verbatim>\<open>data\<close> is absent, null or another
  falsy value. So \<^verbatim>\<open>send(type, 'a string')\<close> fails and \<^verbatim>\<open>send(type, {a: 1})\<close> succeeds.
\<close>

theorem send_rejects_truthy_non_objects:
  assumes "targetWindow st = Window w"
  shows "(send stringify ty d st =
            Throws (TypeError ''incorrect data type. Should be an Object'') st)
           = (truthy d \<and> typeof d \<noteq> ''object'') \<and>
         send stringify ty d st =
           (if truthy d \<and> typeof d \<noteq> ''object''
            then Throws (TypeError ''incorrect data type. Should be an Object'') st
            else Returns (st\<lparr>trace := trace st @
                     [PostMessage w (stringify (message (connectionID st) (js_or d JNull) ty))
                        (targetOrigin st)]\<rparr>))"
  using assms by (cases d) (simp_all add: send_def js_or_def postMessage_def)

theorem send_rejects_truthy_non_objects_witness:
  \<open>targetWindow svc1 = Window 1 \<and>
   send JSON_stringify (JStr ''hello'') (JStr ''a string'') svc1 =
     Throws (TypeError ''incorrect data type. Should be an Object'') svc1 \<and>
   send JSON_stringify (JStr ''hello'') (JObj [(''a'', JNum 1)]) svc1 =
     Returns (svc1\<lparr>trace :=
            [PostMessage 1 ''{"connectionID":"svc1","data":{"a":1},"type":"hello"}'' ''*'']\<rparr>) \<and>
   send JSON_stringify (JStr ''hello'') JUndefined svc1 =
     Returns (svc1\<lparr>trace :=
            [PostMessage 1 ''{"connectionID":"svc1","data":null,"type":"hello"}'' ''*'']\<rparr>)\<close>
proof -
  have w: "targetWindow svc1 = Window 1" by (simp add: svc1_fields)
  have str: \<open>JSON_stringify (message (Some ''svc1'') (JObj [(''a'', JNum 1)]) (JStr ''hello'')) =
             ''{"connectionID":"svc1","data":{"a":1},"type":"hello"}''\<close>
    \<open>JSON_stringify (message (Some ''svc1'') JNull (JStr ''hello'')) =
             ''{"connectionID":"svc1","data":null,"type":"hello"}''\<close> by code_simp+
  have a: "send JSON_stringify (JStr ''hello'') (JStr ''a string'') svc1 =
             Throws (TypeError ''incorrect data type. Should be an Object'') svc1"
    using send_rejects_truthy_non_objects
      [of svc1 1 JSON_stringify "JStr ''hello''" "JStr ''a string''", OF w, THEN conjunct2]
    by simp
  have b: \<open>send JSON_stringify (JStr ''hello'') (JObj [(''a'', JNum 1)]) svc1 =
             Returns (svc1\<lparr>trace :=
               [PostMessage 1 ''{"connectionID":"svc1","data":{"a":1},"type":"hello"}'' ''*'']\<rparr>)\<close>
    using send_rejects_truthy_non_objects
      [of svc1 1 JSON_stringify "JStr ''hello''" "JObj [(''a'', JNum 1)]", OF w, THEN conjunct2]
    unfolding svc1_fields by (simp add: js_or_def str)
  have c: \<open>send JSON_stringify (JStr ''hello'') JUndefined svc1 =
             Returns (svc1\<lparr>trace :=
               [PostMessage 1 ''{"connectionID":"svc1","data":null,"type":"hello"}'' ''*'']\<rparr>)\<close>
    using send_rejects_truthy_non_objects
      [of svc1 1 JSON_stringify "JStr ''hello''" JUndefined, OF w, THEN conjunct2]
    unfolding svc1_fields by (simp add: js_or_def str)
  from w a b c show ?thesis by simp
qed

text \<open>
  C5. For every payload from the target window that \<^verbatim>\<open>JSON.parse\<close> turns into an
  object, \<^verbatim>\<open>receive\<close> dispatches, that is, calls \<^verbatim>\<open>trigger\<close> with the type and the data
  of the object and the object as raw event, if and only if the local connection
  identifier is unset or equal to the \<^verbatim>\<open>connectionID\<close> of the object; otherwise it
  returns and has done nothing, which a call of \<^verbatim>\<open>trigger\<close> never does. The actions of
  an accepted message are those of \<^verbatim>\<open>trigger\<close>: the dispatch to the subscribers of the
  type and of \<^verbatim>\<open>all\<close>; only the construction of the event when the type is a name that
  \<^verbatim>\<open>_callbacks\<close> inherits; nothing when the type has no key. With \<^verbatim>\<open>svc1\<close> locally, an
  envelope of \<^verbatim>\<open>svc2\<close> is dropped and one of \<^verbatim>\<open>svc1\<close> is dispatched; with no local
  identifier the envelope of \<^verbatim>\<open>svc2\<close> is dispatched.
\<close>

theorem connection_filter:
  assumes "parse (msg_data e) = Some (JObj kvs)"
    and "msg_source e = targetWindow st"
    and "connectionID st \<noteq> Some []"
  shows "receive parse e st =
           (if (case connectionID st of
                  None \<Rightarrow> True
                | Some c \<Rightarrow> own_prop kvs ''connectionID'' = JStr c)
            then trigger (own_prop kvs ''type'') (own_prop kvs ''data'') (JObj kvs) st
            else Returns st) \<and>
         (receive parse e st = Returns st) =
           (\<not> (case connectionID st of
                  None \<Rightarrow> True
                | Some c \<Rightarrow> own_prop kvs ''connectionID'' = JStr c)) \<and>
         actions_of st (receive parse e st) =
           (if (case connectionID st of
                  None \<Rightarrow> True
                | Some c \<Rightarrow> own_prop kvs ''connectionID'' = JStr c)
            then (case to_string (own_prop kvs ''type'') of
                    Inl ex \<Rightarrow> []
                  | Inr key \<Rightarrow>
                      if inherited key
                      then [NewEvent \<lparr>type = own_prop kvs ''type'',
                                      data = js_or (own_prop kvs ''data'') JNull,
                                      rawEvent = JObj kvs\<rparr>]
                      else dispatch \<lparr>type = own_prop kvs ''type'',
                                     data = js_or (own_prop kvs ''data'') JNull,
                                     rawEvent = JObj kvs\<rparr> key st)
            else [])"
proof -
  let ?accepted = "case connectionID st of
                     None \<Rightarrow> True
                   | Some c \<Rightarrow> own_prop kvs ''connectionID'' = JStr c"
  let ?ty = "own_prop kvs ''type''" and ?d = "own_prop kvs ''data''"
  let ?t = "trigger ?ty ?d (JObj kvs) st"
  have r: "receive parse e st = (if ?accepted then ?t else Returns st)"
  proof (cases "connectionID st")
    case None
    with assms show ?thesis
      by (simp add: receive_def processMessage_def decode_object str_truthy_def)
  next
    case (Some c)
    with assms have "c \<noteq> []" by simp
    with Some assms show ?thesis
      by (auto simp: receive_def processMessage_def decode_object str_truthy_def)
  qed
  have silent: "(receive parse e st = Returns st) = (\<not> ?accepted)"
    unfolding r using trigger_shows [of ?ty ?d "JObj kvs" st] by simp
  have acts: "actions_of st ?t =
      (case to_string ?ty of
         Inl ex \<Rightarrow> []
       | Inr key \<Rightarrow>
           if inherited key
           then [NewEvent \<lparr>type = ?ty, data = js_or ?d JNull, rawEvent = JObj kvs\<rparr>]
           else dispatch \<lparr>type = ?ty, data = js_or ?d JNull, rawEvent = JObj kvs\<rparr> key st)"
  proof (cases "to_string ?ty")
    case (Inl ex)
    then show ?thesis by (simp add: trigger_no_key)
  next
    case (Inr key)
    then show ?thesis
      by (cases "inherited key")
        (simp_all add: trigger_inherited trigger_ordinary actions_of_Returns actions_of_Throws)
  qed
  have "actions_of st (receive parse e st) = (if ?accepted then actions_of st ?t else [])"
    unfolding r by simp
  with r silent acts show ?thesis by simp
qed

theorem connection_filter_witness:
  \<open>actions_of svc1_listening
     (receive JSON_parse
        \<lparr>msg_source = Window 1, msg_data = ''{"connectionID":"svc2","type":"hi"}''\<rparr>
        svc1_listening) = [] \<and>
   actions_of svc1_listening
     (receive JSON_parse
        \<lparr>msg_source = Window 1, msg_data = ''{"connectionID":"svc1","type":"hi"}''\<rparr>
        svc1_listening) =
     [NewEvent \<lparr>type = JStr ''hi'', data = JNull,
                rawEvent = JObj [(''connectionID'', JStr ''svc1''), (''type'', JStr ''hi'')]\<rparr>,
      Call 7 None \<lparr>type = JStr ''hi'', data = JNull,
                rawEvent = JObj [(''connectionID'', JStr ''svc1''), (''type'', JStr ''hi'')]\<rparr>,
      Call 9 None \<lparr>type = JStr ''hi'', data = JNull,
                rawEvent = JObj [(''connectionID'', JStr ''svc1''), (''type'', JStr ''hi'')]\<rparr>] \<and>
   actions_of unfiltered_listening
     (receive JSON_parse
        \<lparr>msg_source = Window 1, msg_data = ''{"connectionID":"svc2","type":"hi"}''\<rparr>
        unfiltered_listening) =
     [NewEvent \<lparr>type = JStr ''hi'', data = JNull,
                rawEvent = JObj [(''connectionID'', JStr ''svc2''), (''type'', JStr ''hi'')]\<rparr>,
      Call 7 None \<lparr>type = JStr ''hi'', data = JNull,
                rawEvent = JObj [(''connectionID'', JStr ''svc2''), (''type'', JStr ''hi'')]\<rparr>,
      Call 9 None \<lparr>type = JStr ''hi'', data = JNull,
                rawEvent = JObj [(''connectionID'', JStr ''svc2''), (''type'', JStr ''hi'')]\<rparr>]\<close>
proof -
  let ?e1 = \<open>\<lparr>msg_source = Window 1, msg_data = ''{"connectionID":"svc1","type":"hi"}''\<rparr>\<close>
  let ?e2 = \<open>\<lparr>msg_source = Window 1, msg_data = ''{"connectionID":"svc2","type":"hi"}''\<rparr>\<close>
  let ?k1 = "[(''connectionID'', JStr ''svc1''), (''type'', JStr ''hi'')]"
  let ?k2 = "[(''connectionID'', JStr ''svc2''), (''type'', JStr ''hi'')]"
  let ?ev1 = "\<lparr>type = JStr ''hi'', data = JNull, rawEvent = JObj ?k1\<rparr>"
  let ?ev2 = "\<lparr>type = JStr ''hi'', data = JNull, rawEvent = JObj ?k2\<rparr>"
  have p1: "JSON_parse (msg_data ?e1) = Some (JObj ?k1)" by code_simp
  have p2: "JSON_parse (msg_data ?e2) = Some (JObj ?k2)" by code_simp
  have s1: "msg_source ?e1 = targetWindow svc1_listening"
    "msg_source ?e2 = targetWindow svc1_listening"
    "msg_source ?e2 = targetWindow unfiltered_listening" by (simp_all add: listening_fields)
  have n1: "connectionID svc1_listening \<noteq> Some []" by (simp add: listening_fields)
  have n0: "connectionID unfiltered_listening \<noteq> Some []" by (simp add: listening_fields)
  have props: "own_prop ?k1 ''connectionID'' = JStr ''svc1''"
    "own_prop ?k2 ''connectionID'' = JStr ''svc2''"
    "own_prop ?k1 ''type'' = JStr ''hi''" "own_prop ?k2 ''type'' = JStr ''hi''"
    "own_prop ?k1 ''data'' = JUndefined" "own_prop ?k2 ''data'' = JUndefined"
    by (simp_all add: own_prop_def)
  have hi: "\<not> inherited ''hi''" by (simp add: inherited_def)
  have d1: "dispatch ?ev1 ''hi'' svc1_listening =
      [NewEvent ?ev1, Call 7 None ?ev1, Call 9 None ?ev1]"
    by (simp add: dispatch_def listening_fields invoke_def)
  have d2: "dispatch ?ev2 ''hi'' unfiltered_listening =
      [NewEvent ?ev2, Call 7 None ?ev2, Call 9 None ?ev2]"
    by (simp add: dispatch_def listening_fields invoke_def)
  have a: "actions_of svc1_listening (receive JSON_parse ?e2 svc1_listening) = []"
    using connection_filter [of JSON_parse ?e2 ?k2 svc1_listening, OF p2 s1(2) n1,
        THEN conjunct2, THEN conjunct2]
    unfolding listening_fields props by simp
  have b: "actions_of svc1_listening (receive JSON_parse ?e1 svc1_listening) =
      [NewEvent ?ev1, Call 7 None ?ev1, Call 9 None ?ev1]"
    using connection_filter [of JSON_parse ?e1 ?k1 svc1_listening, OF p1 s1(1) n1,
        THEN conjunct2, THEN conjunct2]
    unfolding listening_fields props by (simp add: js_or_def d1 hi)
  have c: "actions_of unfiltered_listening (receive JSON_parse ?e2 unfiltered_listening) =
      [NewEvent ?ev2, Call 7 None ?ev2, Call 9 None ?ev2]"
    using connection_filter [of JSON_parse ?e2 ?k2 unfiltered_listening, OF p2 s1(3) n0,
        THEN conjunct2, THEN conjunct2]
    unfolding listening_fields props by (simp add: js_or_def d2 hi)
  from a b c show ?thesis by simp
qed

text \<open>
  C6. For every connection identifier of the sender, every type string and every keyed
  data that JSON can carry, \<^verbatim>\<open>send\<close> posts one string, and the \<^verbatim>\<open>try\<close> block of
  \<^verbatim>\<open>_processMessage\<close> decodes that string to the envelope it was made from: \<^verbatim>\<open>type\<close> and
  \<^verbatim>\<open>data\<close> are the ones sent, the raw event is the envelope, and its \<^verbatim>\<open>connectionID\<close>
  is the sender's.
\<close>

theorem envelope_round_trip:
  assumes "targetWindow st = Window w"
    and "truthy d" and "typeof d = ''object''"
    and "serializable d"
  shows "send JSON_stringify (JStr ty) d st =
           Returns (st\<lparr>trace := trace st @
                  [PostMessage w (JSON_stringify (message (connectionID st) d (JStr ty)))
                     (targetOrigin st)]\<rparr>) \<and>
         decode JSON_parse (JSON_stringify (message (connectionID st) d (JStr ty))) =
           (message (connectionID st) d (JStr ty), message (connectionID st) d (JStr ty),
            JStr ty, d) \<and>
         get_prop (message (connectionID st) d (JStr ty)) ''connectionID'' =
           Inr (case connectionID st of None \<Rightarrow> JNull | Some c \<Rightarrow> JStr c)"
proof -
  let ?m = "message (connectionID st) d (JStr ty)"
  have "send JSON_stringify (JStr ty) d st =
          Returns (st\<lparr>trace := trace st @
                 [PostMessage w (JSON_stringify ?m) (targetOrigin st)]\<rparr>)"
    using assms(1-3) by (simp add: send_def js_or_def postMessage_def)
  moreover have "JSON_parse (JSON_stringify ?m) = Some ?m"
    using assms(4) by (intro JSON_round_trip serializable_message)
  then have "decode JSON_parse (JSON_stringify ?m) = (?m, ?m, JStr ty, d)"
    by (rule decode_of_serialized)
  moreover have "get_prop ?m ''connectionID'' =
          Inr (case connectionID st of None \<Rightarrow> JNull | Some c \<Rightarrow> JStr c)"
    by (simp add: message_def own_prop_def)
  ultimately show ?thesis by simp
qed

theorem envelope_round_trip_witness:
  \<open>serializable (JObj [(''to'', JStr ''John''), (''times'', JArr [JNum 1, JNum (- 2)])]) \<and>
   send JSON_stringify (JStr ''hello'')
     (JObj [(''to'', JStr ''John''), (''times'', JArr [JNum 1, JNum (- 2)])]) svc1 =
     Returns (svc1\<lparr>trace :=
       [PostMessage 1
          ''{"connectionID":"svc1","data":{"to":"John","times":[1,-2]},"type":"hello"}''
          ''*'']\<rparr>) \<and>
   decode JSON_parse
     ''{"connectionID":"svc1","data":{"to":"John","times":[1,-2]},"type":"hello"}'' =
     (message (Some ''svc1'')
        (JObj [(''to'', JStr ''John''), (''times'', JArr [JNum 1, JNum (- 2)])]) (JStr ''hello''),
      message (Some ''svc1'')
        (JObj [(''to'', JStr ''John''), (''times'', JArr [JNum 1, JNum (- 2)])]) (JStr ''hello''),
      JStr ''hello'', JObj [(''to'', JStr ''John''), (''times'', JArr [JNum 1, JNum (- 2)])])\<close>
proof -
  let ?d = "JObj [(''to'', JStr ''John''), (''times'', JArr [JNum 1, JNum (- 2)])]"
  let ?m = "message (Some ''svc1'') ?d (JStr ''hello'')"
  have str: \<open>JSON_stringify ?m =
      ''{"connectionID":"svc1","data":{"to":"John","times":[1,-2]},"type":"hello"}''\<close>
    by code_simp
  have w: "targetWindow svc1 = Window 1" by (simp add: svc1_fields)
  have t: "truthy ?d" and o: "typeof ?d = ''object''" and ser: "serializable ?d" by simp_all
  from envelope_round_trip [of svc1 1 ?d "''hello''", OF w t o ser] ser
  show ?thesis unfolding svc1_fields str by simp
qed

text \<open>
  C7. For every inbound message whose source is not the very window configured as
  target, \<^verbatim>\<open>receive\<close> does nothing: no parsing, no dispatch, no error, whatever the
  payload; so also for a well-formed envelope that carries the local connection
  identifier.
\<close>

theorem foreign_source_is_dropped:
  assumes "msg_source e \<noteq> targetWindow st"
  shows "receive parse e st = Returns st \<and> actions_of st (receive parse e st) = []"
  using assms by (simp add: receive_def)

theorem foreign_source_is_dropped_witness:
  \<open>JSON_parse ''{"connectionID":"svc1","type":"hi"}'' =
     Some (JObj [(''connectionID'', JStr ''svc1''), (''type'', JStr ''hi'')]) \<and>
   connectionID svc1_listening = Some ''svc1'' \<and>
   targetWindow svc1_listening = Window 1 \<and>
   subscribers svc1_listening ''hi'' = [\<lparr>callback = 7, ctx = None, once = False\<rparr>] \<and>
   subscribers svc1_listening ''all'' = [\<lparr>callback = 9, ctx = None, once = False\<rparr>] \<and>
   receive JSON_parse
     \<lparr>msg_source = Window 2, msg_data = ''{"connectionID":"svc1","type":"hi"}''\<rparr>
     svc1_listening = Returns svc1_listening \<and>
   actions_of svc1_listening
     (receive JSON_parse
        \<lparr>msg_source = Window 2, msg_data = ''{"connectionID":"svc1","type":"hi"}''\<rparr>
        svc1_listening) = []\<close>
proof -
  let ?e = \<open>\<lparr>msg_source = Window 2, msg_data = ''{"connectionID":"svc1","type":"hi"}''\<rparr>\<close>
  have p: \<open>JSON_parse ''{"connectionID":"svc1","type":"hi"}'' =
     Some (JObj [(''connectionID'', JStr ''svc1''), (''type'', JStr ''hi'')])\<close> by code_simp
  have s: "msg_source ?e \<noteq> targetWindow svc1_listening" by (simp add: listening_fields)
  from foreign_source_is_dropped [of ?e svc1_listening JSON_parse, OF s] p
  show ?thesis by (simp add: listening_fields)
qed

text \<open>
  C8. For every settings object and every prior state, \<^verbatim>\<open>set\<close> replaces the target
  window, the target origin (\<^verbatim>\<open>'*'\<close> when none is given) and the connection identifier
  (null when none is given) and leaves the subscriptions as they were: the same arrays
  under the same names, in the same order.
\<close>

theorem set_keeps_subscriptions:
  "callbacks (pms_set sets st) = callbacks st \<and>
   subscribers (pms_set sets st) key = subscribers st key \<and>
   targetWindow (pms_set (Some s) st) = sets_targetWindow s \<and>
   targetOrigin (pms_set (Some s) st) =
     (if str_truthy (sets_targetOrigin s) then the (sets_targetOrigin s) else ''*'') \<and>
   connectionID (pms_set (Some s) st) =
     (if str_truthy (sets_connectionID s) then sets_connectionID s else None)"
  by (simp add: pms_set_def subscribers_def lookup_def Let_def)

text \<open>
  C9. The claim: every dispatched event, whatever its type, reaches each subscriber of
  the wildcard type \<^verbatim>\<open>all\<close>, after the subscribers of its own type. The code does it for
  the types whose key \<^verbatim>\<open>_callbacks\<close> does not inherit (lemma \<open>trigger_ordinary\<close>) and
  misses the others: \<^verbatim>\<open>_callbacks\<close> is a plain object, and \<^verbatim>\<open>trigger\<close> takes what it
  finds under \<^verbatim>\<open>constructor\<close> or \<^verbatim>\<open>toString\<close> for the array of a type. With \<^verbatim>\<open>f7\<close>
  subscribed to \<^verbatim>\<open>hi\<close> and \<^verbatim>\<open>f9\<close> to \<^verbatim>\<open>all\<close>, \<^verbatim>\<open>trigger('hi')\<close> calls \<^verbatim>\<open>f7\<close> and then \<^verbatim>\<open>f9\<close>,
  while \<^verbatim>\<open>trigger('constructor')\<close> constructs the event, throws a TypeError and calls
  nobody; so does an inbound envelope of type \<^verbatim>\<open>toString\<close>.
\<close>

theorem wildcard_misses_inherited_type:
  \<open>subscribers unfiltered_listening ''all'' = [\<lparr>callback = 9, ctx = None, once = False\<rparr>] \<and>
   actions_of unfiltered_listening
     (trigger (JStr ''hi'') JUndefined JUndefined unfiltered_listening) =
     [NewEvent \<lparr>type = JStr ''hi'', data = JNull, rawEvent = JUndefined\<rparr>,
      Call 7 None \<lparr>type = JStr ''hi'', data = JNull, rawEvent = JUndefined\<rparr>,
      Call 9 None \<lparr>type = JStr ''hi'', data = JNull, rawEvent = JUndefined\<rparr>] \<and>
   returned (trigger (JStr ''hi'') JUndefined JUndefined unfiltered_listening) \<and>
   actions_of unfiltered_listening
     (trigger (JStr ''constructor'') JUndefined JUndefined unfiltered_listening) =
     [NewEvent \<lparr>type = JStr ''constructor'', data = JNull, rawEvent = JUndefined\<rparr>] \<and>
   \<not> returned (trigger (JStr ''constructor'') JUndefined JUndefined unfiltered_listening) \<and>
   actions_of unfiltered_listening
     (receive JSON_parse \<lparr>msg_source = Window 1, msg_data = ''{"type":"toString"}''\<rparr>
        unfiltered_listening) =
     [NewEvent \<lparr>type = JStr ''toString'', data = JNull,
                rawEvent = JObj [(''type'', JStr ''toString'')]\<rparr>] \<and>
   \<not> returned
       (receive JSON_parse \<lparr>msg_source = Window 1, msg_data = ''{"type":"toString"}''\<rparr>
          unfiltered_listening)\<close>
  by code_simp

text \<open>
  C10, as stated: for every payload that \<^verbatim>\<open>JSON.parse\<close> accepts and that is not a JSON
  object, with the local connection identifier unset, \<^verbatim>\<open>receive\<close> does not take the
  \<^verbatim>\<open>message\<close> fallback, which is taken only when \<^verbatim>\<open>JSON.parse\<close> throws. It fails for the
  payload \<^verbatim>\<open>null\<close>: \<^verbatim>\<open>JSON.parse\<close> returns null, reading its \<^verbatim>\<open>type\<close> throws inside the
  \<^verbatim>\<open>try\<close> block, and the event goes to the subscribers of \<^verbatim>\<open>message\<close>.
\<close>

theorem null_payload_counterexample:
  "JSON_parse ''null'' = Some JNull \<and> non_object JNull \<and>
   returned (on ''message'' 7 None False
               (state_of (on ''undefined'' 8 None False unfiltered))) \<and>
   actions_of (state_of (on ''message'' 7 None False
                           (state_of (on ''undefined'' 8 None False unfiltered))))
     (receive JSON_parse \<lparr>msg_source = Window 1, msg_data = ''null''\<rparr>
        (state_of (on ''message'' 7 None False
                     (state_of (on ''undefined'' 8 None False unfiltered))))) =
     [NewEvent \<lparr>type = JStr ''message'', data = JNull, rawEvent = JStr ''null''\<rparr>,
      Call 7 None \<lparr>type = JStr ''message'', data = JNull, rawEvent = JStr ''null''\<rparr>]"
  by code_simp

text \<open>
  C10, amended. For every payload from the target window that \<^verbatim>\<open>JSON.parse\<close> accepts
  and that is not a JSON object, with the local connection identifier unset: if the
  value is a boolean, a number, a string or an array, \<^verbatim>\<open>receive\<close> dispatches one event
  whose type is undefined, whose data is null and whose raw event is the parsed value,
  to the subscribers of the key \<^verbatim>\<open>undefined\<close> and then to those of \<^verbatim>\<open>all\<close>, and to no
  other; if the value is null, \<^verbatim>\<open>receive\<close> takes the \<^verbatim>\<open>message\<close> fallback, as it does when
  \<^verbatim>\<open>JSON.parse\<close> throws. Either way it returns.
\<close>

theorem non_object_payload:
  assumes "parse (msg_data e) = Some v" and "non_object v"
    and "msg_source e = targetWindow st"
    and "\<not> str_truthy (connectionID st)"
  shows "receive parse e st =
           (if v = JNull then trigger (JStr ''message'') JNull (JStr (msg_data e)) st
            else trigger JUndefined JUndefined v st) \<and>
         returned (receive parse e st) \<and>
         actions_of st (receive parse e st) =
           (if v = JNull
            then NewEvent \<lparr>type = JStr ''message'', data = JNull, rawEvent = JStr (msg_data e)\<rparr>
              # map (invoke \<lparr>type = JStr ''message'', data = JNull,
                              rawEvent = JStr (msg_data e)\<rparr>) (subscribers st ''message'')
              @ map (invoke \<lparr>type = JStr ''message'', data = JNull,
                              rawEvent = JStr (msg_data e)\<rparr>) (subscribers st ''all'')
            else NewEvent \<lparr>type = JUndefined, data = JNull, rawEvent = v\<rparr>
              # map (invoke \<lparr>type = JUndefined, data = JNull, rawEvent = v\<rparr>)
                    (subscribers st ''undefined'')
              @ map (invoke \<lparr>type = JUndefined, data = JNull, rawEvent = v\<rparr>)
                    (subscribers st ''all''))"
proof (cases "v = JNull")
  case True
  with assms have r: "receive parse e st =
      trigger (JStr ''message'') JNull (JStr (msg_data e)) st"
    by (simp add: null_payload)
  have t: "trigger (JStr ''message'') JNull (JStr (msg_data e)) st =
      Returns (st\<lparr>trace := trace st @
         dispatch \<lparr>type = JStr ''message'', data = JNull, rawEvent = JStr (msg_data e)\<rparr>
           ''message'' st\<rparr>)"
    using trigger_ordinary [of "JStr ''message''" "''message''" JNull "JStr (msg_data e)" st]
    by (simp add: js_or_def)
  have "returned (receive parse e st)" unfolding r t by simp
  moreover have "actions_of st (receive parse e st) =
      dispatch \<lparr>type = JStr ''message'', data = JNull, rawEvent = JStr (msg_data e)\<rparr>
        ''message'' st"
    unfolding r t by (rule actions_of_Returns)
  ultimately show ?thesis using True r by (simp add: dispatch_def)
next
  case False
  with assms have "decode parse (msg_data e) = (v, v, JUndefined, JUndefined)"
    by (simp add: decode_no_fields)
  with assms have r: "receive parse e st = trigger JUndefined JUndefined v st"
    by (simp add: receive_def processMessage_def)
  have t: "trigger JUndefined JUndefined v st =
      Returns (st\<lparr>trace := trace st @
         dispatch \<lparr>type = JUndefined, data = JNull, rawEvent = v\<rparr> ''undefined'' st\<rparr>)"
    using trigger_ordinary [of JUndefined "''undefined''" JUndefined v st]
    by (simp add: js_or_def)
  have "returned (receive parse e st)" unfolding r t by simp
  moreover have "actions_of st (receive parse e st) =
      dispatch \<lparr>type = JUndefined, data = JNull, rawEvent = v\<rparr> ''undefined'' st"
    unfolding r t by (rule actions_of_Returns)
  ultimately show ?thesis using False r by (simp add: dispatch_def)
qed

theorem non_object_payload_witness:
  \<open>JSON_parse ''5'' = Some (JNum 5) \<and> JSON_parse ''"hi"'' = Some (JStr ''hi'') \<and>
   returned (on ''message'' 7 None False
     (state_of (on ''undefined'' 8 None False (state_of (on ''all'' 9 None False unfiltered))))) \<and>
   actions_of
     (state_of (on ''message'' 7 None False
        (state_of (on ''undefined'' 8 None False (state_of (on ''all'' 9 None False unfiltered))))))
     (receive JSON_parse \<lparr>msg_source = Window 1, msg_data = ''5''\<rparr>
       (state_of (on ''message'' 7 None False
          (state_of (on ''undefined'' 8 None False
             (state_of (on ''all'' 9 None False unfiltered))))))) =
     [NewEvent \<lparr>type = JUndefined, data = JNull, rawEvent = JNum 5\<rparr>,
      Call 8 None \<lparr>type = JUndefined, data = JNull, rawEvent = JNum 5\<rparr>,
      Call 9 None \<lparr>type = JUndefined, data = JNull, rawEvent = JNum 5\<rparr>] \<and>
   actions_of
     (state_of (on ''message'' 7 None False
        (state_of (on ''undefined'' 8 None False (state_of (on ''all'' 9 None False unfiltered))))))
     (receive JSON_parse \<lparr>msg_source = Window 1, msg_data = ''"hi"''\<rparr>
       (state_of (on ''message'' 7 None False
          (state_of (on ''undefined'' 8 None False
             (state_of (on ''all'' 9 None False unfiltered))))))) =
     [NewEvent \<lparr>type = JUndefined, data = JNull, rawEvent = JStr ''hi''\<rparr>,
      Call 8 None \<lparr>type = JUndefined, data = JNull, rawEvent = JStr ''hi''\<rparr>,
      Call 9 None \<lparr>type = JUndefined, data = JNull, rawEvent = JStr ''hi''\<rparr>]\<close>
proof -
  let ?st = "state_of (on ''message'' 7 None False
     (state_of (on ''undefined'' 8 None False (state_of (on ''all'' 9 None False unfiltered)))))"
  let ?e5 = "\<lparr>msg_source = Window 1, msg_data = ''5''\<rparr>"
  let ?ehi = \<open>\<lparr>msg_source = Window 1, msg_data = ''"hi"''\<rparr>\<close>
  have o: "returned (on ''message'' 7 None False
     (state_of (on ''undefined'' 8 None False (state_of (on ''all'' 9 None False unfiltered)))))"
    by code_simp
  have p5: "JSON_parse (msg_data ?e5) = Some (JNum 5)" by code_simp
  have phi: "JSON_parse (msg_data ?ehi) = Some (JStr ''hi'')" by code_simp
  have s: "msg_source ?e5 = targetWindow ?st" "msg_source ?ehi = targetWindow ?st"
    by code_simp+
  have c: "\<not> str_truthy (connectionID ?st)" by code_simp
  have subs: "subscribers ?st ''undefined'' = [\<lparr>callback = 8, ctx = None, once = False\<rparr>]"
    "subscribers ?st ''all'' = [\<lparr>callback = 9, ctx = None, once = False\<rparr>]"
    by code_simp+
  have a: "actions_of ?st (receive JSON_parse ?e5 ?st) =
     [NewEvent \<lparr>type = JUndefined, data = JNull, rawEvent = JNum 5\<rparr>,
      Call 8 None \<lparr>type = JUndefined, data = JNull, rawEvent = JNum 5\<rparr>,
      Call 9 None \<lparr>type = JUndefined, data = JNull, rawEvent = JNum 5\<rparr>]"
    using non_object_payload [of JSON_parse ?e5 "JNum 5" ?st, OF p5 _ s(1) c,
        THEN conjunct2, THEN conjunct2]
    unfolding subs by (simp add: invoke_def)
  have b: "actions_of ?st (receive JSON_parse ?ehi ?st) =
     [NewEvent \<lparr>type = JUndefined, data = JNull, rawEvent = JStr ''hi''\<rparr>,
      Call 8 None \<lparr>type = JUndefined, data = JNull, rawEvent = JStr ''hi''\<rparr>,
      Call 9 None \<lparr>type = JUndefined, data = JNull, rawEvent = JStr ''hi''\<rparr>]"
    using non_object_payload [of JSON_parse ?ehi "JStr ''hi''" ?st, OF phi _ s(2) c,
        THEN conjunct2, THEN conjunct2]
    unfolding subs by (simp add: invoke_def)
  from o p5 phi a b show ?thesis by simp
qed


end
